theory Spec2Isabelle
  imports Main "HOL-Library.Sublist"
begin

section \<open>Data model\<close>

text \<open>
  An item of the to-do list, with the properties the program gives it: \<open>handleAddTodo\<close>
  (App.jsx) builds the speculative item \<open>{id, text, completed}\<close>, and \<open>todoApi.addTodo\<close>
  builds the confirmed item \<open>{id, text, completed, createdAt}\<close>. The property
  \<open>createdAt\<close> is absent from a speculative item, hence an option. JavaScript strings
  are modelled by \<open>string\<close>: code units are restricted to 8 bits.
\<close>

record todo =
  todo_id :: string
  todo_text :: string
  completed :: bool
  createdAt :: "string option"

text \<open>
  A JavaScript array is an object with an identity. No function of the program mutates an
  array in place (they use spread, \<open>map\<close> and \<open>filter\<close>, which build new arrays), so an
  array is modelled by its address together with its elements: two arrays are the same
  reference when their addresses agree, and deep-equal when their elements agree.
\<close>

record todo_array =
  addr :: nat
  elems :: "todo list"

text \<open>A thrown value: an Error object with its \<open>name\<close> and its \<open>message\<close>.\<close>

datatype error = Exn (name: string) (message: string)

text \<open>
  The completion of a statement that acts on a state: it completes normally, or abruptly
  with a thrown value; in both cases the state reached is kept, as the effects that
  precede a \<open>throw\<close> are.
\<close>

datatype 's completion = Normal 's | Abrupt error 's

definition try_catch :: "'s completion \<Rightarrow> (error \<Rightarrow> 's \<Rightarrow> 's completion) \<Rightarrow> 's completion" where
  "try_catch body handler =
     (case body of Normal s \<Rightarrow> Normal s | Abrupt e s \<Rightarrow> handler e s)"

definition and_then :: "'s completion \<Rightarrow> ('s \<Rightarrow> 's completion) \<Rightarrow> 's completion" where
  "and_then c f = (case c of Normal s \<Rightarrow> f s | Abrupt e s \<Rightarrow> Abrupt e s)"

text \<open>The state a statement leaves, whether it returned or threw.\<close>

fun state_of :: "'s completion \<Rightarrow> 's" where
  "state_of (Normal s) = s"
| "state_of (Abrupt e s) = s"

text \<open>
  An expression that yields a value or throws is a sum, \<open>Inl\<close> the thrown value;
  \<open>try_value\<close> is \<open>try\<close> and \<open>catch\<close> around such an expression.
\<close>

definition try_value :: "error + 'a \<Rightarrow> (error \<Rightarrow> error + 'a) \<Rightarrow> error + 'a" where
  "try_value body handler = (case body of Inl e \<Rightarrow> handler e | Inr v \<Rightarrow> Inr v)"

section \<open>The platform: numbers as text, dates, JSON, localStorage\<close>

subsection \<open>Number.prototype.toString and Date.prototype.toISOString\<close>

definition digit_char :: "nat \<Rightarrow> char" where
  "digit_char n = ''0123456789'' ! n"

fun show_nat :: "nat \<Rightarrow> string" where
  "show_nat n =
     (if n < 10 then [digit_char n] else show_nat (n div 10) @ [digit_char (n mod 10)])"

declare show_nat.simps [simp del]

definition pad :: "nat \<Rightarrow> string \<Rightarrow> string" where
  "pad k s = replicate (k - length s) (CHR ''0'') @ s"

text \<open>
  The calendar date of a day number counted from 1970-01-01, in the proleptic Gregorian
  calendar: (year, month, day).
\<close>

definition civil_from_days :: "nat \<Rightarrow> nat \<times> nat \<times> nat" where
  "civil_from_days days =
     (let z = days + 719468;
          era = z div 146097;
          doe = z mod 146097;
          yoe = (doe + doe div 36524 - doe div 1460 - doe div 146096) div 365;
          doy = doe + yoe div 100 - 365 * yoe - yoe div 4;
          mp = (5 * doy + 2) div 153;
          d = doy + 1 - (153 * mp + 2) div 5;
          m = (if mp < 10 then mp + 3 else mp - 9);
          y = yoe + era * 400
      in ((if m \<le> 2 then y + 1 else y), m, d))"

text \<open>\<open>new Date(ms).toISOString()\<close> for a time \<open>ms\<close> in milliseconds since the epoch.\<close>

definition toISOString :: "nat \<Rightarrow> string" where
  "toISOString ms =
     (let (y, m, d) = civil_from_days (ms div 86400000);
          t = ms mod 86400000
      in pad 4 (show_nat y) @ ''-'' @ pad 2 (show_nat m) @ ''-'' @ pad 2 (show_nat d) @ ''T'' @
         pad 2 (show_nat (t div 3600000)) @ '':'' @
         pad 2 (show_nat (t mod 3600000 div 60000)) @ '':'' @
         pad 2 (show_nat (t mod 60000 div 1000)) @ ''.'' @
         pad 3 (show_nat (t mod 1000)) @ ''Z'')"

subsection \<open>String.prototype.trim\<close>

text \<open>
  The white space and line terminator code units that \<open>trim\<close> removes, among the 8-bit
  code units: TAB, LF, VT, FF, CR, SPACE and NBSP.
\<close>

definition is_white_space :: "char \<Rightarrow> bool" where
  "is_white_space c = ((of_char c :: nat) \<in> {0x09, 0x0A, 0x0B, 0x0C, 0x0D, 0x20, 0xA0})"

definition trim :: "string \<Rightarrow> string" where
  "trim s = rev (dropWhile is_white_space (rev (dropWhile is_white_space s)))"

subsection \<open>JSON.stringify on an item list\<close>

definition hex_digit :: "nat \<Rightarrow> char" where
  "hex_digit n = ''0123456789abcdef'' ! n"

text \<open>
  QuoteJSONString: the two-character escapes, \<open>\u00XX\<close> for the other control
  characters, every other code unit as it is. \<open>CHR 0x5C\<close> is the backslash and
  \<open>CHR 0x22\<close> the double quote.
\<close>

definition escape_char :: "char \<Rightarrow> string" where
  "escape_char c =
     (let n = (of_char c :: nat) in
      if n = 0x08 then [CHR 0x5C, CHR ''b'']
      else if n = 0x09 then [CHR 0x5C, CHR ''t'']
      else if n = 0x0A then [CHR 0x5C, CHR ''n'']
      else if n = 0x0C then [CHR 0x5C, CHR ''f'']
      else if n = 0x0D then [CHR 0x5C, CHR ''r'']
      else if n = 0x22 then [CHR 0x5C, CHR 0x22]
      else if n = 0x5C then [CHR 0x5C, CHR 0x5C]
      else if n < 0x20 then
        [CHR 0x5C, CHR ''u'', CHR ''0'', CHR ''0'', hex_digit (n div 16), hex_digit (n mod 16)]
      else [c])"

definition quote :: "string \<Rightarrow> string" where
  "quote s = CHR 0x22 # concat (map escape_char s) @ [CHR 0x22]"

text \<open>
  The properties of an item are serialised in their creation order, which every function
  of the program keeps: id, text, completed and, when present, createdAt.
\<close>

definition stringify_item :: "todo \<Rightarrow> string" where
  "stringify_item t =
     ''{'' @ quote ''id'' @ '':'' @ quote (todo_id t) @
     '','' @ quote ''text'' @ '':'' @ quote (todo_text t) @
     '','' @ quote ''completed'' @ '':'' @ (if completed t then ''true'' else ''false'') @
     (case createdAt t of None \<Rightarrow> [] | Some d \<Rightarrow> '','' @ quote ''createdAt'' @ '':'' @ quote d) @
     ''}''"

fun join_items :: "string list \<Rightarrow> string" where
  "join_items [] = []"
| "join_items [x] = x"
| "join_items (x # xs) = x @ '','' @ join_items xs"

definition JSON_stringify :: "todo list \<Rightarrow> string" where
  "JSON_stringify xs = ''['' @ join_items (map stringify_item xs) @ '']''"

subsection \<open>JSON.parse\<close>

text \<open>
  \<open>JSON.parse\<close> has three outcomes here. It throws a SyntaxError exactly when the text is
  not a JSON text: the lexer and the recogniser below follow the JSON grammar in full
  (white space, the six structural characters, strings with their escapes, numbers, and
  the literals \<open>true\<close>, \<open>false\<close> and \<open>null\<close>, nested to any depth). When the text is a
  JSON text that denotes an item list (an array of objects with the members of an item,
  in any order, the last of two members of one name winning), its value is that list.
  For every other JSON text (\<open>null\<close>, a number, an object with other members, a string with
  a \<open>\uXXXX\<close> escape beyond 8 bits) \<open>JSON.parse\<close> returns a value too, one the typed model
  does not represent: the model says so (\<open>Untyped\<close>) and follows the program no further.
\<close>

datatype 'a modelled = Typed 'a | Untyped

definition hex_value :: "char \<Rightarrow> nat option" where
  "hex_value c =
     (let n = of_char c in
      if 48 \<le> n \<and> n \<le> 57 then Some (n - 48)
      else if 97 \<le> n \<and> n \<le> 102 then Some (n - 87)
      else if 65 \<le> n \<and> n \<le> 70 then Some (n - 55)
      else None)"

definition hex4 :: "char \<Rightarrow> char \<Rightarrow> char \<Rightarrow> char \<Rightarrow> nat option" where
  "hex4 a b c d =
     (case (hex_value a, hex_value b, hex_value c, hex_value d) of
        (Some w, Some x, Some y, Some z) \<Rightarrow> Some (4096 * w + 256 * x + 16 * y + z)
      | _ \<Rightarrow> None)"

definition unescape :: "char \<Rightarrow> char option" where
  "unescape e =
     (if e = CHR 0x22 then Some (CHR 0x22)
      else if e = CHR 0x5C then Some (CHR 0x5C)
      else if e = CHR ''/'' then Some (CHR ''/'')
      else if e = CHR ''b'' then Some (CHR 0x08)
      else if e = CHR ''f'' then Some (CHR 0x0C)
      else if e = CHR ''n'' then Some (CHR 0x0A)
      else if e = CHR ''r'' then Some (CHR 0x0D)
      else if e = CHR ''t'' then Some (CHR 0x09)
      else None)"

text \<open>
  The characters of a string literal after its opening quote, and the rest of the text;
  \<open>None\<close> when the literal is malformed. The characters are \<open>None\<close> when an escape
  denotes a code unit beyond 8 bits: the literal is well formed, its value is outside
  the string type of the model.
\<close>

definition cons_char :: "char \<Rightarrow> string option \<times> string \<Rightarrow> string option \<times> string" where
  "cons_char c r = (map_option (Cons c) (fst r), snd r)"

fun read_chars :: "string \<Rightarrow> (string option \<times> string) option" where
  "read_chars [] = None"
| "read_chars (c # cs) =
     (if c = CHR 0x22 then Some (Some [], cs)
      else if c = CHR 0x5C then
        (case cs of
           [] \<Rightarrow> None
         | e # cs' \<Rightarrow>
             if e = CHR ''u'' then
               (case cs' of
                  h1 # h2 # h3 # h4 # r \<Rightarrow>
                    (case hex4 h1 h2 h3 h4 of
                       None \<Rightarrow> None
                     | Some n \<Rightarrow>
                         if n < 256 then map_option (cons_char (char_of n)) (read_chars r)
                         else map_option (\<lambda>r'. (None, snd r')) (read_chars r))
                | _ \<Rightarrow> None)
             else
               (case unescape e of
                  None \<Rightarrow> None
                | Some d \<Rightarrow> map_option (cons_char d) (read_chars cs')))
      else if (of_char c :: nat) < 0x20 then None
      else map_option (cons_char c) (read_chars cs))"

text \<open>
  The rest of the text after the longest number literal at its head: an optional minus,
  an integer part (\<open>0\<close>, or a digit from 1 to 9 and digits), an optional fraction (a point
  and at least one digit) and an optional exponent (\<open>e\<close> or \<open>E\<close>, an optional sign and at
  least one digit). \<open>None\<close> when no number starts here.
\<close>

definition is_digit :: "char \<Rightarrow> bool" where
  "is_digit c = (48 \<le> (of_char c :: nat) \<and> (of_char c :: nat) \<le> 57)"

definition digit_ahead :: "string \<Rightarrow> bool" where
  "digit_ahead cs = (case cs of [] \<Rightarrow> False | c # r \<Rightarrow> is_digit c)"

definition skip_sign :: "string \<Rightarrow> string" where
  "skip_sign cs =
     (case cs of [] \<Rightarrow> [] | c # r \<Rightarrow> if c = CHR ''+'' \<or> c = CHR ''-'' then r else cs)"

definition skip_fraction :: "string \<Rightarrow> string" where
  "skip_fraction cs =
     (case cs of
        [] \<Rightarrow> []
      | c # r \<Rightarrow> if c = CHR ''.'' \<and> digit_ahead r then dropWhile is_digit r else cs)"

definition skip_exponent :: "string \<Rightarrow> string" where
  "skip_exponent cs =
     (case cs of
        [] \<Rightarrow> []
      | c # r \<Rightarrow>
          if (c = CHR ''e'' \<or> c = CHR ''E'') \<and> digit_ahead (skip_sign r)
          then dropWhile is_digit (skip_sign r) else cs)"

definition skip_integer :: "string \<Rightarrow> string option" where
  "skip_integer cs =
     (case cs of
        [] \<Rightarrow> None
      | c # r \<Rightarrow>
          if c = CHR ''0'' then Some r
          else if is_digit c then Some (dropWhile is_digit r)
          else None)"

definition read_number :: "string \<Rightarrow> string option" where
  "read_number cs =
     map_option (\<lambda>r. skip_exponent (skip_fraction r))
       (skip_integer (case cs of [] \<Rightarrow> [] | c # r \<Rightarrow> if c = CHR ''-'' then r else cs))"

datatype token =
    LBrack | RBrack | LBrace | RBrace | Colon | Comma
  | TString string | TWide | TNumber | TTrue | TFalse | TNull

definition is_json_ws :: "char \<Rightarrow> bool" where
  "is_json_ws c = (c = CHR 0x20 \<or> c = CHR 0x09 \<or> c = CHR 0x0A \<or> c = CHR 0x0D)"

definition string_token :: "string option \<Rightarrow> token" where
  "string_token s = (case s of None \<Rightarrow> TWide | Some cs \<Rightarrow> TString cs)"

function lex :: "string \<Rightarrow> token list option" where
  "lex [] = Some []"
| "lex (c # cs) =
     (if is_json_ws c then lex cs
      else if c = CHR ''['' then map_option (Cons LBrack) (lex cs)
      else if c = CHR '']'' then map_option (Cons RBrack) (lex cs)
      else if c = CHR ''{'' then map_option (Cons LBrace) (lex cs)
      else if c = CHR ''}'' then map_option (Cons RBrace) (lex cs)
      else if c = CHR '':'' then map_option (Cons Colon) (lex cs)
      else if c = CHR '','' then map_option (Cons Comma) (lex cs)
      else if c = CHR 0x22 then
        (case read_chars cs of
           None \<Rightarrow> None
         | Some (s, r) \<Rightarrow> map_option (Cons (string_token s)) (lex r))
      else if c = CHR ''t'' \<and> take 3 cs = ''rue'' then map_option (Cons TTrue) (lex (drop 3 cs))
      else if c = CHR ''f'' \<and> take 4 cs = ''alse'' then map_option (Cons TFalse) (lex (drop 4 cs))
      else if c = CHR ''n'' \<and> take 3 cs = ''ull'' then map_option (Cons TNull) (lex (drop 3 cs))
      else if c = CHR ''-'' \<or> is_digit c then
        (case read_number (c # cs) of
           None \<Rightarrow> None
         | Some r \<Rightarrow> map_option (Cons TNumber) (lex r))
      else None)"
  by pat_completeness auto
termination
proof -
  have shorter: "length r < length cs" if "read_chars cs = Some (s, r)" for cs s r
    using that
  proof (induction "length cs" arbitrary: cs s r rule: less_induct)
    case less
    have IH: "\<And>cs' s' r'. read_chars cs' = Some (s', r') \<Longrightarrow> length cs' < length cs
        \<Longrightarrow> length r' < length cs'"
      using less.hyps by blast
    from less.prems show ?case
      by (cases cs)
         (auto simp: cons_char_def split: if_splits list.splits option.splits dest!: IH)
  qed
  have le: "length (dropWhile is_digit xs) \<le> length xs" for xs
    by (induction xs) auto
  have fraction: "length (skip_fraction xs) \<le> length xs" for xs
    using le[of "tl xs"] by (cases xs) (auto simp: skip_fraction_def)
  have sign: "length (skip_sign xs) \<le> length xs" for xs
    by (cases xs) (auto simp: skip_sign_def)
  have exponent: "length (skip_exponent xs) \<le> length xs" for xs
  proof (cases xs)
    case Nil
    then show ?thesis by (simp add: skip_exponent_def)
  next
    case (Cons c r)
    have "length (dropWhile is_digit (skip_sign r)) \<le> length r"
      using le[of "skip_sign r"] sign[of r] by linarith
    then show ?thesis
      using Cons by (simp add: skip_exponent_def)
  qed
  have integer: "length r < length xs" if "skip_integer xs = Some r" for xs r
    using that le[of "tl xs"]
    by (cases xs) (auto simp: skip_integer_def split: if_splits)
  have number: "length r \<le> length cs" if rn: "read_number (c # cs) = Some r" for c cs r
  proof -
    obtain r0 where r0: "skip_integer (if c = CHR ''-'' then cs else c # cs) = Some r0"
        and r: "r = skip_exponent (skip_fraction r0)"
      using rn by (auto simp: read_number_def)
    have "length r0 < length (c # cs)"
      using integer[OF r0] by (auto split: if_splits)
    moreover have "length r \<le> length r0"
      using exponent[of "skip_fraction r0"] fraction[of r0] unfolding r by linarith
    ultimately show ?thesis by simp
  qed
  show ?thesis
  proof (relation "measure length", simp_all, goal_cases)
    case (1 c cs x2 x y)
    then show ?case
      using shorter[of cs x y] by auto
  next
    case (2 c cs x2)
    show ?case
      by (rule le_imp_less_Suc[OF number]) (rule 2)
  qed
qed

text \<open>
  The recogniser of JSON texts over the tokens: a pushdown automaton, with the open
  arrays and objects on its stack.
\<close>

datatype frame = InArray | InObject

datatype phase = Value | ValueOrEnd | KeyOrEnd | Key | ColonNext | AfterValue | Done

fun after_value :: "frame list \<Rightarrow> phase" where
  "after_value [] = Done"
| "after_value (f # fs) = AfterValue"

fun is_scalar :: "token \<Rightarrow> bool" where
  "is_scalar (TString s) = True"
| "is_scalar TWide = True"
| "is_scalar TNumber = True"
| "is_scalar TTrue = True"
| "is_scalar TFalse = True"
| "is_scalar TNull = True"
| "is_scalar _ = False"

fun is_name :: "token \<Rightarrow> bool" where
  "is_name (TString s) = True"
| "is_name TWide = True"
| "is_name _ = False"

definition close_frame :: "frame \<Rightarrow> frame list \<Rightarrow> (phase \<times> frame list) option" where
  "close_frame f st =
     (case st of
        [] \<Rightarrow> None
      | g # st' \<Rightarrow> if g = f then Some (after_value st', st') else None)"

definition pda_step :: "phase \<Rightarrow> frame list \<Rightarrow> token \<Rightarrow> (phase \<times> frame list) option" where
  "pda_step p st t =
     (if p = Value \<or> p = ValueOrEnd then
        (if is_scalar t then Some (after_value st, st)
         else if t = LBrack then Some (ValueOrEnd, InArray # st)
         else if t = LBrace then Some (KeyOrEnd, InObject # st)
         else if t = RBrack \<and> p = ValueOrEnd then close_frame InArray st
         else None)
      else if p = KeyOrEnd \<or> p = Key then
        (if is_name t then Some (ColonNext, st)
         else if t = RBrace \<and> p = KeyOrEnd then close_frame InObject st
         else None)
      else if p = ColonNext then (if t = Colon then Some (Value, st) else None)
      else if p = AfterValue then
        (case st of
           [] \<Rightarrow> None
         | InArray # st' \<Rightarrow>
             if t = Comma then Some (Value, st)
             else if t = RBrack then close_frame InArray st
             else None
         | InObject # st' \<Rightarrow>
             if t = Comma then Some (Key, st)
             else if t = RBrace then close_frame InObject st
             else None)
      else None)"

fun accepts :: "phase \<Rightarrow> frame list \<Rightarrow> token list \<Rightarrow> bool" where
  "accepts p st [] = (p = Done)"
| "accepts p st (t # ts) =
     (case pda_step p st t of None \<Rightarrow> False | Some (p', st') \<Rightarrow> accepts p' st' ts)"

definition is_json :: "token list \<Rightarrow> bool" where
  "is_json ts = accepts Value [] ts"

text \<open>The item list a JSON text denotes, when it denotes one.\<close>

datatype jvalue = JString string | JBoolean bool

fun token_value :: "token \<Rightarrow> jvalue option" where
  "token_value (TString s) = Some (JString s)"
| "token_value TTrue = Some (JBoolean True)"
| "token_value TFalse = Some (JBoolean False)"
| "token_value _ = None"

text \<open>The members of an object after its opening brace, up to its closing brace.\<close>

fun parse_members :: "token list \<Rightarrow> ((string \<times> jvalue) list \<times> token list) option" where
  "parse_members (TString k # Colon # v # sep # ts) =
     (case token_value v of
        None \<Rightarrow> None
      | Some j \<Rightarrow>
          if sep = RBrace then Some ([(k, j)], ts)
          else if sep = Comma then map_option (apfst (Cons (k, j))) (parse_members ts)
          else None)"
| "parse_members _ = None"

definition parse_object :: "token list \<Rightarrow> ((string \<times> jvalue) list \<times> token list) option" where
  "parse_object ts =
     (case ts of
        LBrace # RBrace # r \<Rightarrow> Some ([], r)
      | LBrace # r \<Rightarrow> parse_members r
      | _ \<Rightarrow> None)"

definition item_keys :: "string list" where
  "item_keys = [''id'', ''text'', ''completed'', ''createdAt'']"

text \<open>The item an object denotes: of two members of one name the later one counts.\<close>

definition decode_item :: "(string \<times> jvalue) list \<Rightarrow> todo option" where
  "decode_item ms =
     (let obj = map_of (rev ms) in
      if \<not> list_all (\<lambda>(k, v). k \<in> set item_keys) ms then None
      else
        (case (obj ''id'', obj ''text'', obj ''completed'') of
           (Some (JString i), Some (JString t), Some (JBoolean b)) \<Rightarrow>
             (case obj ''createdAt'' of
                None \<Rightarrow> Some \<lparr>todo_id = i, todo_text = t, completed = b, createdAt = None\<rparr>
              | Some (JString d) \<Rightarrow>
                  Some \<lparr>todo_id = i, todo_text = t, completed = b, createdAt = Some d\<rparr>
              | Some (JBoolean _) \<Rightarrow> None)
         | _ \<Rightarrow> None))"

text \<open>The elements of an array after its opening bracket, up to its closing bracket.\<close>

function parse_elements :: "token list \<Rightarrow> (todo list \<times> token list) option" where
  "parse_elements ts =
     (case parse_object ts of
        None \<Rightarrow> None
      | Some (ms, r) \<Rightarrow>
          (case decode_item ms of
             None \<Rightarrow> None
           | Some t \<Rightarrow>
               (case r of
                  RBrack # r' \<Rightarrow> Some ([t], r')
                | Comma # r' \<Rightarrow> map_option (apfst (Cons t)) (parse_elements r')
                | _ \<Rightarrow> None)))"
  by pat_completeness auto
termination
proof -
  have members: "length r < length ts" if "parse_members ts = Some (ms, r)" for ts ms r
    using that
    by (induction ts arbitrary: ms r rule: parse_members.induct)
       (fastforce split: option.splits if_splits)+
  have object: "length r < length ts" if "parse_object ts = Some (ms, r)" for ts ms r
    using that
    by (auto simp: parse_object_def split: list.splits token.splits dest: members)
  show ?thesis
    by (relation "measure length") (auto dest: object)
qed

declare parse_elements.simps [simp del]

definition parse_items :: "token list \<Rightarrow> todo list option" where
  "parse_items ts =
     (case ts of
        [LBrack, RBrack] \<Rightarrow> Some []
      | LBrack # ts' \<Rightarrow>
          (case parse_elements ts' of
             Some (xs, []) \<Rightarrow> Some xs
           | _ \<Rightarrow> None)
      | _ \<Rightarrow> None)"

definition SyntaxError :: error where
  "SyntaxError = Exn ''SyntaxError'' ''JSON.parse: unexpected character''"

definition JSON_parse :: "string \<Rightarrow> error + todo list modelled" where
  "JSON_parse s =
     (case lex s of
        None \<Rightarrow> Inl SyntaxError
      | Some ts \<Rightarrow>
          if \<not> is_json ts then Inl SyntaxError
          else (case parse_items ts of Some xs \<Rightarrow> Inr (Typed xs) | None \<Rightarrow> Inr Untyped))"

subsection \<open>localStorage\<close>

text \<open>
  The durable key-value store of the browser. Its calls can throw: every access throws a
  SecurityError when the page is denied storage (\<open>blocked\<close>), and \<open>setItem\<close> throws a
  QuotaExceededError when the entry does not fit the space the browser grants (\<open>quota\<close>,
  in code units). \<open>getItem\<close> answers \<open>null\<close> (here \<open>None\<close>) for an absent key.
\<close>

record localStorage =
  items :: "string \<rightharpoonup> string"
  blocked :: bool
  quota :: nat

definition SecurityError :: error where
  "SecurityError = Exn ''SecurityError'' ''The operation is insecure.''"

definition QuotaExceededError :: error where
  "QuotaExceededError = Exn ''QuotaExceededError'' ''The quota has been exceeded.''"

definition localStorage_getItem :: "localStorage \<Rightarrow> string \<Rightarrow> error + string option" where
  "localStorage_getItem ls k = (if blocked ls then Inl SecurityError else Inr (items ls k))"

definition localStorage_setItem :: "localStorage \<Rightarrow> string \<Rightarrow> string \<Rightarrow> error + localStorage" where
  "localStorage_setItem ls k v =
     (if blocked ls then Inl SecurityError
      else if quota ls < length k + length v then Inl QuotaExceededError
      else Inr (ls\<lparr>items := (items ls)(k \<mapsto> v)\<rparr>))"

section \<open>The store (store/todoStore.js)\<close>

text \<open>
  An observer is a callback; the store keeps it, removes it and calls it. It is modelled
  by its identity, and a call of it is recorded in the trace \<open>notified\<close>. What the
  callback does when it is called is its reaction: it returns; or it throws; or it calls
  the function that a \<open>subscribe\<close> returned, its own or that of another observer, and
  returns.
\<close>

type_synonym listener = nat

datatype reaction = Returns | Throws error | Unsubscribes listener

text \<open>
  The state \<open>createTodoStore\<close> closes over (\<open>listeners\<close>, a Set in insertion order, and
  \<open>todos\<close>), with the parts of the environment its methods act on: the durable storage,
  the console and the trace of observer calls.
\<close>

record store =
  listeners :: "listener list"
  todos :: todo_array
  storage :: localStorage
  console :: "(string \<times> error) list"
  notified :: "listener list"

text \<open>
  The reaction of every observer, which may depend on the state of the store it is called
  in. An observer that subscribes an observer or writes to the store from inside its call
  is not among them: the iteration of \<open>updateTodos\<close> over the observers need not end then.
\<close>

type_synonym observers = "listener \<Rightarrow> store \<Rightarrow> reaction"

text \<open>
  \<open>Set.prototype.add\<close>, \<open>delete\<close> and \<open>forEach\<close> on a Set kept in insertion order.
  \<open>forEach\<close> goes through the entries in insertion order, visits an entry when it is
  still in the Set at its turn, and ends at the first callback that throws.
\<close>

definition Set_add :: "'a \<Rightarrow> 'a list \<Rightarrow> 'a list" where
  "Set_add x xs = (if x \<in> set xs then xs else xs @ [x])"

definition Set_delete :: "'a \<Rightarrow> 'a list \<Rightarrow> bool \<times> 'a list" where
  "Set_delete x xs = (x \<in> set xs, removeAll x xs)"

fun forEach ::
  "listener list \<Rightarrow> (listener \<Rightarrow> store \<Rightarrow> store completion) \<Rightarrow> store \<Rightarrow> store completion" where
  "forEach [] f s = Normal s"
| "forEach (l # rest) f s =
     (if l \<in> set (listeners s) then
        (case f l s of
           Normal s' \<Rightarrow> forEach rest f s'
         | Abrupt e s' \<Rightarrow> Abrupt e s')
      else forEach rest f s)"

text \<open>
  The \<open>try\<close> block of the initialisation: read the key, and parse what is stored unless
  it is \<open>null\<close> or the empty string (both are falsy). What \<open>JSON.parse\<close> returns is kept,
  whatever it is.
\<close>

definition load_todos :: "localStorage \<Rightarrow> error + todo list modelled" where
  "load_todos ls =
     (case localStorage_getItem ls ''todos'' of
        Inl e \<Rightarrow> Inl e
      | Inr stored \<Rightarrow>
          (case stored of
             None \<Rightarrow> Inr (Typed [])
           | Some s \<Rightarrow> if s = [] then Inr (Typed []) else JSON_parse s))"

text \<open>
  \<open>createTodoStore()\<close>, run on the durable storage \<open>ls\<close>; \<open>a\<close> is the address of the
  array the variable \<open>todos\<close> holds when the function returns. The \<open>catch\<close> block
  replaces whatever the \<open>try\<close> block threw by the empty list. When the stored text is
  JSON for something else than an item list, the variable \<open>todos\<close> holds that value: a
  store the model does not represent.
\<close>

definition createTodoStore :: "localStorage \<Rightarrow> nat \<Rightarrow> error + store modelled" where
  "createTodoStore ls a =
     (case try_value (load_todos ls) (\<lambda>e. Inr (Typed [])) of
        Inl e \<Rightarrow> Inl e
      | Inr Untyped \<Rightarrow> Inr Untyped
      | Inr (Typed xs) \<Rightarrow>
          Inr (Typed \<lparr>listeners = [], todos = \<lparr>addr = a, elems = xs\<rparr>, storage = ls,
                      console = [], notified = []\<rparr>))"

text \<open>The function \<open>subscribe(listener)\<close> returns: \<open>() => listeners.delete(listener)\<close>.\<close>

definition unsubscribe :: "listener \<Rightarrow> store \<Rightarrow> bool \<times> store" where
  "unsubscribe listener s =
     (let (found, ls) = Set_delete listener (listeners s) in (found, s\<lparr>listeners := ls\<rparr>))"

definition subscribe :: "listener \<Rightarrow> store \<Rightarrow> (store \<Rightarrow> bool \<times> store) \<times> store" where
  "subscribe listener s =
     (unsubscribe listener, s\<lparr>listeners := Set_add listener (listeners s)\<rparr>)"

definition getSnapshot :: "store \<Rightarrow> todo_array" where
  "getSnapshot s = todos s"

text \<open>Observers that return, whatever the state of the store.\<close>

definition returning :: observers where
  "returning l s = Returns"

text \<open>The call \<open>listener()\<close> of the observer \<open>listener\<close>, whose reaction is \<open>react listener\<close>.\<close>

definition call_listener :: "observers \<Rightarrow> listener \<Rightarrow> store \<Rightarrow> store completion" where
  "call_listener react listener s =
     (let s' = s\<lparr>notified := notified s @ [listener]\<rparr> in
      case react listener s of
        Returns \<Rightarrow> Normal s'
      | Throws e \<Rightarrow> Abrupt e s'
      | Unsubscribes l \<Rightarrow> Normal (snd (unsubscribe l s')))"

text \<open>The \<open>try\<close> block of \<open>updateTodos\<close>: serialise the list and write it.\<close>

definition persist :: "store \<Rightarrow> store completion" where
  "persist s =
     (case localStorage_setItem (storage s) ''todos'' (JSON_stringify (elems (todos s))) of
        Inl err \<Rightarrow> Abrupt err s
      | Inr ls \<Rightarrow> Normal (s\<lparr>storage := ls\<rparr>))"

definition console_error :: "string \<Rightarrow> error \<Rightarrow> store \<Rightarrow> store" where
  "console_error msg err s = s\<lparr>console := console s @ [(msg, err)]\<rparr>"

text \<open>
  \<open>updateTodos(newTodos)\<close>, on a store whose observers react as \<open>react\<close> says. The
  \<open>forEach\<close> is after the \<open>try\<close> statement, not inside it: what an observer throws
  leaves \<open>updateTodos\<close>.
\<close>

definition updateTodos :: "observers \<Rightarrow> todo_array \<Rightarrow> store \<Rightarrow> store completion" where
  "updateTodos react newTodos s =
     and_then
       (try_catch (persist (s\<lparr>todos := newTodos\<rparr>))
          (\<lambda>err s'. Normal (console_error ''Failed to persist:'' err s')))
       (\<lambda>s'. forEach (listeners s') (call_listener react) s')"

text \<open>
  Sequences of calls of the store's methods, by whatever client; the sequence ends at the
  first call that throws.
\<close>

datatype store_op =
    Subscribe listener
  | Unsubscribe listener
  | GetSnapshot
  | UpdateTodos todo_array

fun run_op :: "observers \<Rightarrow> store_op \<Rightarrow> store \<Rightarrow> store completion" where
  "run_op react (Subscribe l) s = Normal (snd (subscribe l s))"
| "run_op react (Unsubscribe l) s = Normal (snd (unsubscribe l s))"
| "run_op react GetSnapshot s = Normal s"
| "run_op react (UpdateTodos xs) s = updateTodos react xs s"

fun run_ops :: "observers \<Rightarrow> store_op list \<Rightarrow> store \<Rightarrow> store completion" where
  "run_ops react [] s = Normal s"
| "run_ops react (op # ops) s = and_then (run_op react op s) (run_ops react ops)"

fun is_update :: "store_op \<Rightarrow> bool" where
  "is_update (UpdateTodos xs) = True"
| "is_update _ = False"

text \<open>The list a store starts with, when it is one of the model.\<close>

definition initial_list :: "error + store modelled \<Rightarrow> error + todo list modelled" where
  "initial_list r =
     (case r of
        Inl e \<Rightarrow> Inl e
      | Inr Untyped \<Rightarrow> Inr Untyped
      | Inr (Typed fresh) \<Rightarrow> Inr (Typed (elems (getSnapshot fresh))))"

text \<open>
  \<open>updateTodos(x)\<close> on a store, then a fresh store created (at address \<open>a\<close>) from the
  durable storage that call leaves, whether it returned or an observer threw: the list
  the fresh store starts with.
\<close>

definition update_then_reload ::
  "observers \<Rightarrow> todo_array \<Rightarrow> store \<Rightarrow> nat \<Rightarrow> error + todo list modelled" where
  "update_then_reload react x s a =
     initial_list (createTodoStore (storage (state_of (updateTodos react x s))) a)"

section \<open>The simulated remote service (api/todoApi.js)\<close>

datatype 'a outcome = Resolved 'a | Rejected error

text \<open>
  The promise an operation of the service returns: the delay after which it settles, in
  milliseconds, and its settlement as a function of the clock (\<open>Date.now()\<close>) at that
  moment.
\<close>

type_synonym 'a promise = "nat \<times> (nat \<Rightarrow> 'a outcome)"

text \<open>The operations log to the console and return; the log is left out.\<close>

definition todoApi_addTodo :: "string \<Rightarrow> todo promise" where
  "todoApi_addTodo text =
     (1500, \<lambda>now. Resolved \<lparr>todo_id = show_nat now, todo_text = text, completed = False,
                            createdAt = Some (toISOString now)\<rparr>)"

definition todoApi_toggleTodo :: "string \<Rightarrow> string promise" where
  "todoApi_toggleTodo id' = (800, \<lambda>now. Resolved id')"

definition todoApi_deleteTodo :: "string \<Rightarrow> string promise" where
  "todoApi_deleteTodo id' = (1000, \<lambda>now. Resolved id')"

definition todoApi_updateTodo :: "string \<Rightarrow> string \<Rightarrow> (string \<times> string) promise" where
  "todoApi_updateTodo id' text = (1000, \<lambda>now. Resolved (id', text))"

text \<open>
  The settlement a handler observes at its \<open>await\<close>. The service has no failure of its
  own; a failure is one a caller simulates: the fault \<open>Some m\<close> puts a rejection with
  \<open>new Error(m)\<close> in the place of the service's settlement.
\<close>

definition settle :: "'a promise \<Rightarrow> nat \<Rightarrow> string option \<Rightarrow> 'a outcome" where
  "settle p now fault =
     (case fault of None \<Rightarrow> snd p now | Some m \<Rightarrow> Rejected (Exn ''Error'' m))"

section \<open>The application (App.jsx)\<close>

record toast =
  toast_message :: string
  toast_type :: string

text \<open>
  An async handler suspended at its \<open>await\<close>, with the variables its continuation
  closes over: for an add the list \<open>storedTodos\<close> of the render that created the handler,
  the speculative item and the text; for the others the copy \<open>original\<close> and the
  arguments.
\<close>

datatype continuation =
    AddK todo_array todo string
  | ToggleK todo_array string
  | DeleteK todo_array string
  | UpdateK todo_array string string

text \<open>
  The state of the running page: the module-level store, the next free address for a new
  array, the suspended handlers, the React state \<open>toast\<close>, and the rejections that no
  handler caught (an error thrown inside the transition, or the promise of a handler
  that rejected).
\<close>

record app =
  todoStore :: store
  next_addr :: nat
  pending :: "continuation list"
  toast :: "toast option"
  uncaught :: "error list"

definition new_array :: "todo list \<Rightarrow> app \<Rightarrow> todo_array \<times> app" where
  "new_array xs a = (\<lparr>addr = next_addr a, elems = xs\<rparr>, a\<lparr>next_addr := Suc (next_addr a)\<rparr>)"

text \<open>
  The observers of the page's store. The only \<open>subscribe\<close> of the page is the one of
  \<open>useSyncExternalStore\<close>, and the callback React passes to it reads the snapshot,
  schedules a render and returns.
\<close>

definition page_observers :: observers where
  "page_observers = returning"

text \<open>A call of a method of the module-level \<open>todoStore\<close>.\<close>

definition store_call :: "(store \<Rightarrow> store completion) \<Rightarrow> app \<Rightarrow> app completion" where
  "store_call f a =
     (case f (todoStore a) of
        Normal s \<Rightarrow> Normal (a\<lparr>todoStore := s\<rparr>)
      | Abrupt e s \<Rightarrow> Abrupt e (a\<lparr>todoStore := s\<rparr>))"

text \<open>
  \<open>storedTodos\<close>: \<open>useSyncExternalStore\<close> re-renders the component on every
  notification of the store, so the handlers of the current render close over the
  store's current snapshot.
\<close>

definition useSyncExternalStore :: "app \<Rightarrow> todo_array" where
  "useSyncExternalStore a = getSnapshot (todoStore a)"

fun overlay :: "continuation list \<Rightarrow> todo list" where
  "overlay [] = []"
| "overlay (AddK storedTodos tempTodo text # ks) = tempTodo # overlay ks"
| "overlay (k # ks) = overlay ks"

text \<open>
  \<open>optimisticTodos\<close>: the reducer of \<open>useOptimistic\<close> appends the speculative item of
  every add whose transition is still running to the stored list.
\<close>

definition optimisticTodos :: "app \<Rightarrow> todo list" where
  "optimisticTodos a = elems (useSyncExternalStore a) @ overlay (pending a)"

definition showToast :: "string \<Rightarrow> string \<Rightarrow> app \<Rightarrow> app" where
  "showToast msg type a = a\<lparr>toast := Some \<lparr>toast_message = msg, toast_type = type\<rparr>\<rparr>"

text \<open>\<open>id.toString().startsWith('temp-')\<close>, as the statistics of App.jsx test it.\<close>

definition is_speculative :: "todo \<Rightarrow> bool" where
  "is_speculative t = prefix ''temp-'' (todo_id t)"

subsection \<open>handleAddTodo\<close>

definition tempTodo :: "nat \<Rightarrow> string \<Rightarrow> todo" where
  "tempTodo now text =
     \<lparr>todo_id = ''temp-'' @ show_nat now, todo_text = text, completed = False,
      createdAt = None\<rparr>"

text \<open>
  Up to the \<open>await\<close>: the speculative item goes to the optimistic overlay, and the call
  of the service is issued. The store is not touched.
\<close>

definition handleAddTodo :: "nat \<Rightarrow> string \<Rightarrow> app \<Rightarrow> app completion" where
  "handleAddTodo now text a =
     Normal (a\<lparr>pending := pending a @ [AddK (useSyncExternalStore a) (tempTodo now text) text]\<rparr>)"

definition handleAddTodo_try :: "todo_array \<Rightarrow> todo outcome \<Rightarrow> app \<Rightarrow> app completion" where
  "handleAddTodo_try storedTodos outcome a =
     (case outcome of
        Rejected err \<Rightarrow> Abrupt err a
      | Resolved newTodo \<Rightarrow>
          (let (xs, a1) = new_array (elems storedTodos @ [newTodo]) a
           in and_then (store_call (updateTodos page_observers xs) a1)
                (\<lambda>a2. Normal (showToast ''Todo added successfully'' ''success'' a2))))"

definition handleAddTodo_catch :: "error \<Rightarrow> app \<Rightarrow> app completion" where
  "handleAddTodo_catch err a = Abrupt err (showToast (message err) ''error'' a)"

definition handleAddTodo_resume :: "todo_array \<Rightarrow> todo outcome \<Rightarrow> app \<Rightarrow> app completion" where
  "handleAddTodo_resume storedTodos outcome a =
     try_catch (handleAddTodo_try storedTodos outcome a) handleAddTodo_catch"

subsection \<open>handleToggleTodo\<close>

definition toggle_item :: "string \<Rightarrow> todo \<Rightarrow> todo" where
  "toggle_item id' t = (if todo_id t = id' then t\<lparr>completed := \<not> completed t\<rparr> else t)"

definition handleToggleTodo :: "string \<Rightarrow> app \<Rightarrow> app completion" where
  "handleToggleTodo id' a =
     (let storedTodos = useSyncExternalStore a;
          (original, a1) = new_array (elems storedTodos) a;
          (updated, a2) = new_array (map (toggle_item id') (elems storedTodos)) a1
      in and_then (store_call (updateTodos page_observers updated) a2)
           (\<lambda>a3. Normal (a3\<lparr>pending := pending a3 @ [ToggleK original id']\<rparr>)))"

definition handleToggleTodo_try :: "string outcome \<Rightarrow> app \<Rightarrow> app completion" where
  "handleToggleTodo_try outcome a =
     (case outcome of Rejected err \<Rightarrow> Abrupt err a | Resolved v \<Rightarrow> Normal a)"

definition handleToggleTodo_catch :: "todo_array \<Rightarrow> error \<Rightarrow> app \<Rightarrow> app completion" where
  "handleToggleTodo_catch original err a =
     and_then (store_call (updateTodos page_observers original) a)
       (\<lambda>a1. Normal (showToast ''Failed to toggle todo'' ''error'' a1))"

definition handleToggleTodo_resume :: "todo_array \<Rightarrow> string outcome \<Rightarrow> app \<Rightarrow> app completion" where
  "handleToggleTodo_resume original outcome a =
     try_catch (handleToggleTodo_try outcome a) (handleToggleTodo_catch original)"

subsection \<open>handleDeleteTodo\<close>

definition handleDeleteTodo :: "string \<Rightarrow> app \<Rightarrow> app completion" where
  "handleDeleteTodo id' a =
     (let storedTodos = useSyncExternalStore a;
          (original, a1) = new_array (elems storedTodos) a;
          (updated, a2) = new_array (filter (\<lambda>t. todo_id t \<noteq> id') (elems storedTodos)) a1
      in and_then (store_call (updateTodos page_observers updated) a2)
           (\<lambda>a3. Normal (a3\<lparr>pending := pending a3 @ [DeleteK original id']\<rparr>)))"

definition handleDeleteTodo_try :: "string outcome \<Rightarrow> app \<Rightarrow> app completion" where
  "handleDeleteTodo_try outcome a =
     (case outcome of
        Rejected err \<Rightarrow> Abrupt err a
      | Resolved v \<Rightarrow> Normal (showToast ''Todo deleted'' ''success'' a))"

definition handleDeleteTodo_catch :: "todo_array \<Rightarrow> error \<Rightarrow> app \<Rightarrow> app completion" where
  "handleDeleteTodo_catch original err a =
     and_then (store_call (updateTodos page_observers original) a)
       (\<lambda>a1. Normal (showToast ''Failed to delete todo'' ''error'' a1))"

definition handleDeleteTodo_resume :: "todo_array \<Rightarrow> string outcome \<Rightarrow> app \<Rightarrow> app completion" where
  "handleDeleteTodo_resume original outcome a =
     try_catch (handleDeleteTodo_try outcome a) (handleDeleteTodo_catch original)"

subsection \<open>handleUpdateTodo\<close>

definition retext_item :: "string \<Rightarrow> string \<Rightarrow> todo \<Rightarrow> todo" where
  "retext_item id' newText t = (if todo_id t = id' then t\<lparr>todo_text := newText\<rparr> else t)"

definition handleUpdateTodo :: "string \<Rightarrow> string \<Rightarrow> app \<Rightarrow> app completion" where
  "handleUpdateTodo id' newText a =
     (let storedTodos = useSyncExternalStore a;
          (original, a1) = new_array (elems storedTodos) a;
          (updated, a2) = new_array (map (retext_item id' newText) (elems storedTodos)) a1
      in and_then (store_call (updateTodos page_observers updated) a2)
           (\<lambda>a3. Normal (a3\<lparr>pending := pending a3 @ [UpdateK original id' newText]\<rparr>)))"

definition handleUpdateTodo_try :: "(string \<times> string) outcome \<Rightarrow> app \<Rightarrow> app completion" where
  "handleUpdateTodo_try outcome a =
     (case outcome of
        Rejected err \<Rightarrow> Abrupt err a
      | Resolved v \<Rightarrow> Normal (showToast ''Todo updated'' ''success'' a))"

definition handleUpdateTodo_catch :: "todo_array \<Rightarrow> error \<Rightarrow> app \<Rightarrow> app completion" where
  "handleUpdateTodo_catch original err a =
     and_then (store_call (updateTodos page_observers original) a)
       (\<lambda>a1. Normal (showToast ''Failed to update todo'' ''error'' a1))"

definition handleUpdateTodo_resume ::
    "todo_array \<Rightarrow> (string \<times> string) outcome \<Rightarrow> app \<Rightarrow> app completion" where
  "handleUpdateTodo_resume original outcome a =
     try_catch (handleUpdateTodo_try outcome a) (handleUpdateTodo_catch original)"

subsection \<open>handleClearAll\<close>

text \<open>\<open>confirmed\<close> is the answer of \<open>window.confirm\<close>.\<close>

definition handleClearAll :: "bool \<Rightarrow> app \<Rightarrow> app completion" where
  "handleClearAll confirmed a =
     (if confirmed then
        (let (xs, a1) = new_array [] a
         in and_then (store_call (updateTodos page_observers xs) a1)
              (\<lambda>a2. Normal (showToast ''All todos cleared'' ''success'' a2)))
      else Normal a)"

subsection \<open>The page as a transition system\<close>

text \<open>
  The events of the page: the user invokes a handler (an add with the clock at that
  moment), or the remote call of the suspended handler at index \<open>i\<close> settles, with the
  clock at that moment and the fault a caller simulates, if any. The order in which the
  suspended handlers settle is left open.
\<close>

datatype event =
    AddTodo nat string
  | ToggleTodo string
  | DeleteTodo string
  | UpdateTodo string string
  | ClearAll bool
  | Settle nat nat "string option"

definition resume :: "continuation \<Rightarrow> nat \<Rightarrow> string option \<Rightarrow> app \<Rightarrow> app completion" where
  "resume k now fault a =
     (case k of
        AddK storedTodos tmp text \<Rightarrow>
          handleAddTodo_resume storedTodos (settle (todoApi_addTodo text) now fault) a
      | ToggleK original k \<Rightarrow>
          handleToggleTodo_resume original (settle (todoApi_toggleTodo k) now fault) a
      | DeleteK original k \<Rightarrow>
          handleDeleteTodo_resume original (settle (todoApi_deleteTodo k) now fault) a
      | UpdateK original k text \<Rightarrow>
          handleUpdateTodo_resume original (settle (todoApi_updateTodo k text) now fault) a)"

text \<open>
  A rejection that nothing in the program catches reaches the runtime, and is recorded.
  What the runtime then does (React hands an error thrown inside a transition to the
  nearest error boundary) is outside the model: the page is let go on, which covers the
  executions in which it does.
\<close>

definition report :: "app completion \<Rightarrow> app" where
  "report c = (case c of Normal a \<Rightarrow> a | Abrupt e a \<Rightarrow> a\<lparr>uncaught := uncaught a @ [e]\<rparr>)"

fun step :: "event \<Rightarrow> app \<Rightarrow> app" where
  "step (AddTodo now text) a = report (handleAddTodo now text a)"
| "step (ToggleTodo k) a = report (handleToggleTodo k a)"
| "step (DeleteTodo k) a = report (handleDeleteTodo k a)"
| "step (UpdateTodo k text) a = report (handleUpdateTodo k text a)"
| "step (ClearAll confirmed) a = report (handleClearAll confirmed a)"
| "step (Settle i now fault) a =
     (if i < length (pending a) then
        report (resume (pending a ! i) now fault
                  (a\<lparr>pending := take i (pending a) @ drop (Suc i) (pending a)\<rparr>))
      else a)"

definition run :: "event list \<Rightarrow> app \<Rightarrow> app" where
  "run evs a = fold step evs a"

text \<open>
  Loading the page on the durable storage \<open>ls\<close>: the module creates the store, and the
  component subscribes its re-render callback (observer 0).
\<close>

definition mount :: "localStorage \<Rightarrow> error + app modelled" where
  "mount ls =
     (case createTodoStore ls 0 of
        Inl e \<Rightarrow> Inl e
      | Inr Untyped \<Rightarrow> Inr Untyped
      | Inr (Typed s) \<Rightarrow>
          Inr (Typed \<lparr>todoStore = snd (subscribe 0 s), next_addr = 1, pending = [],
                      toast = None, uncaught = []\<rparr>))"

section \<open>The form (components/AddTodoForm.jsx)\<close>

record form =
  form_input :: string
  form_error :: "string option"

text \<open>
  \<open>handleSubmit\<close>, with the callback \<open>onSubmit\<close> acting on a state \<open>w\<close> of its owner.
\<close>

definition handleSubmit ::
    "(string \<Rightarrow> 'w \<Rightarrow> 'w completion) \<Rightarrow> form \<Rightarrow> 'w \<Rightarrow> form \<times> 'w" where
  "handleSubmit onSubmit f w =
     (let text = trim (form_input f) in
      if text = [] then (f\<lparr>form_error := Some ''Please enter a todo''\<rparr>, w)
      else
        (let originalInput = form_input f;
             f1 = f\<lparr>form_input := [], form_error := None\<rparr>
         in case onSubmit text w of
              Normal w' \<Rightarrow> (f1, w')
            | Abrupt err w' \<Rightarrow>
                (f1\<lparr>form_input := originalInput, form_error := Some (message err)\<rparr>, w')))"

section \<open>The properties of the specification, in its words\<close>

text \<open>
  The pure list transformation of each mutation: append the confirmed item; flip
  \<open>completed\<close> of the matching id; remove the matching id; replace the text of the
  matching id.
\<close>

datatype mutation = MAdd todo | MToggle string | MDelete string | MUpdate string string

fun apply_mutation :: "mutation \<Rightarrow> todo list \<Rightarrow> todo list" where
  "apply_mutation (MAdd t) xs = xs @ [t]"
| "apply_mutation (MToggle k) xs =
     map (\<lambda>t. if todo_id t = k then t\<lparr>completed := \<not> completed t\<rparr> else t) xs"
| "apply_mutation (MDelete k) xs = filter (\<lambda>t. todo_id t \<noteq> k) xs"
| "apply_mutation (MUpdate k s) xs =
     map (\<lambda>t. if todo_id t = k then t\<lparr>todo_text := s\<rparr> else t) xs"

definition apply_mutations :: "mutation list \<Rightarrow> todo list \<Rightarrow> todo list" where
  "apply_mutations ms xs = fold apply_mutation ms xs"

fun is_add :: "continuation \<Rightarrow> bool" where
  "is_add (AddK storedTodos tmp text) = True"
| "is_add _ = False"

text \<open>
  The mutation an event completes: a toggle, a delete or an update when it is called (its
  list transformation is applied at once), an add when its remote call resolves (with the
  item the service confirms).
\<close>

definition mutation_of :: "event \<Rightarrow> app \<Rightarrow> mutation list" where
  "mutation_of ev a =
     (case ev of
        ToggleTodo k \<Rightarrow> [MToggle k]
      | DeleteTodo k \<Rightarrow> [MDelete k]
      | UpdateTodo k s \<Rightarrow> [MUpdate k s]
      | Settle i now fault \<Rightarrow>
          (if i < length (pending a) then
             (case pending a ! i of
                AddK storedTodos tmp text \<Rightarrow>
                  (case settle (todoApi_addTodo text) now fault of
                     Resolved t \<Rightarrow> [MAdd t]
                   | Rejected e \<Rightarrow> [])
              | _ \<Rightarrow> [])
           else [])
      | _ \<Rightarrow> [])"

fun mutations :: "event list \<Rightarrow> app \<Rightarrow> mutation list" where
  "mutations [] a = []"
| "mutations (ev # evs) a = mutation_of ev a @ mutations evs (step ev a)"

text \<open>
  A run of mutations whose remote calls all succeed, and in which no handler is invoked
  while an add is in flight: every event is a call of one of the four handlers, made when
  no add is suspended, or the settlement of a suspended handler with no fault.
\<close>

definition allowed :: "event \<Rightarrow> app \<Rightarrow> bool" where
  "allowed ev a =
     (case ev of
        Settle i now fault \<Rightarrow> fault = None \<and> i < length (pending a)
      | ClearAll c \<Rightarrow> False
      | _ \<Rightarrow> \<not> list_ex is_add (pending a))"

fun no_call_during_add :: "event list \<Rightarrow> app \<Rightarrow> bool" where
  "no_call_during_add [] a = True"
| "no_call_during_add (ev # evs) a = (allowed ev a \<and> no_call_during_add evs (step ev a))"

text \<open>
  No item of a list, and no item of the durable storage, has a speculative id. A stored
  text that is no item list of the model holds no item of the model.
\<close>

definition no_speculative :: "todo list \<Rightarrow> bool" where
  "no_speculative xs = list_all (\<lambda>t. \<not> is_speculative t) xs"

definition storage_clean :: "localStorage \<Rightarrow> bool" where
  "storage_clean ls =
     (case items ls ''todos'' of
        None \<Rightarrow> True
      | Some s \<Rightarrow>
          (case JSON_parse s of
             Inl e \<Rightarrow> True
           | Inr Untyped \<Rightarrow> True
           | Inr (Typed xs) \<Rightarrow> no_speculative xs))"

text \<open>
  The states of every execution: the page is loaded on a durable storage that holds no
  speculative item (an empty one, at the first visit), events happen, and the page may be
  loaded again on the storage it left. Every load gives a store of the model here: one
  that starts with an item list.
\<close>

inductive reachable :: "app \<Rightarrow> bool" where
  start: "storage_clean ls \<Longrightarrow> mount ls = Inr (Typed a) \<Longrightarrow> reachable a"
| event: "reachable a \<Longrightarrow> reachable (step ev a)"
| reload: "reachable a \<Longrightarrow> mount (storage (todoStore a)) = Inr (Typed a') \<Longrightarrow> reachable a'"

subsection \<open>The tokens and members of a serialised list\<close>

text \<open>What the lexer and the parser are to find in the text \<open>JSON_stringify\<close> writes.\<close>

definition tokens_item :: "todo \<Rightarrow> token list" where
  "tokens_item t =
     [LBrace, TString ''id'', Colon, TString (todo_id t), Comma,
      TString ''text'', Colon, TString (todo_text t), Comma,
      TString ''completed'', Colon, if completed t then TTrue else TFalse] @
     (case createdAt t of None \<Rightarrow> [] | Some d \<Rightarrow> [Comma, TString ''createdAt'', Colon, TString d]) @
     [RBrace]"

fun tokens_items :: "todo list \<Rightarrow> token list" where
  "tokens_items [] = []"
| "tokens_items [x] = tokens_item x"
| "tokens_items (x # xs) = tokens_item x @ Comma # tokens_items xs"

definition members_item :: "todo \<Rightarrow> (string \<times> jvalue) list" where
  "members_item t =
     [(''id'', JString (todo_id t)), (''text'', JString (todo_text t)),
      (''completed'', JBoolean (completed t))] @
     (case createdAt t of None \<Rightarrow> [] | Some d \<Rightarrow> [(''createdAt'', JString d)])"

subsection \<open>The state a write leaves\<close>

text \<open>
  The store after an \<open>updateTodos(x)\<close> whose observers return, written out: the array
  is held, the storage is written or the failure logged, and the observers have been
  called.
\<close>

definition written :: "todo_array \<Rightarrow> store \<Rightarrow> store" where
  "written x s =
     (case localStorage_setItem (storage s) ''todos'' (JSON_stringify (elems x)) of
        Inl err \<Rightarrow>
          s\<lparr>todos := x, console := console s @ [(''Failed to persist:'', err)],
            notified := notified s @ listeners s\<rparr>
      | Inr ls \<Rightarrow> s\<lparr>todos := x, storage := ls, notified := notified s @ listeners s\<rparr>)"

text \<open>The list a suspended handler closes over.\<close>

fun captured :: "continuation \<Rightarrow> todo list" where
  "captured (AddK storedTodos tmp text) = elems storedTodos"
| "captured (ToggleK original k) = elems original"
| "captured (DeleteK original k) = elems original"
| "captured (UpdateK original k text) = elems original"

text \<open>
  No speculative item in the store, in the durable storage, or in a list a suspended
  handler may write back.
\<close>

definition clean_state :: "app \<Rightarrow> bool" where
  "clean_state a =
     (no_speculative (elems (todos (todoStore a)))
      \<and> storage_clean (storage (todoStore a))
      \<and> list_all (\<lambda>k. no_speculative (captured k)) (pending a))"

text \<open>
  A suspended add closes over the list the store still holds, and at most one add is
  suspended.
\<close>

definition adds_current :: "app \<Rightarrow> bool" where
  "adds_current a =
     (list_all (\<lambda>k. is_add k \<longrightarrow> captured k = elems (todos (todoStore a))) (pending a)
      \<and> length (filter is_add (pending a)) \<le> 1)"

subsection \<open>Example states\<close>

definition item1 :: todo where
  "item1 = \<lparr>todo_id = ''1'', todo_text = ''a'', completed = False, createdAt = None\<rparr>"

definition item2 :: todo where
  "item2 = \<lparr>todo_id = ''2'', todo_text = ''b'', completed = True, createdAt = None\<rparr>"

definition storage1 :: localStorage where
  "storage1 = \<lparr>items = [''todos'' \<mapsto> JSON_stringify [item1]], blocked = False, quota = 5000\<rparr>"

definition store1 :: store where
  "store1 = \<lparr>listeners = [0], todos = \<lparr>addr = 0, elems = [item1]\<rparr>, storage = storage1,
             console = [], notified = []\<rparr>"

definition app1 :: app where
  "app1 = \<lparr>todoStore = store1, next_addr = 1, pending = [], toast = None, uncaught = []\<rparr>"

text \<open>
  A storage that is full: it holds the text of \<open>[item2]\<close>, 40 code units under a key of 5,
  and has room for 45.
\<close>

definition storage_full :: localStorage where
  "storage_full = \<lparr>items = [''todos'' \<mapsto> JSON_stringify [item2]], blocked = False, quota = 45\<rparr>"

definition store_full :: store where
  "store_full = \<lparr>listeners = [0, 1], todos = \<lparr>addr = 0, elems = [item2]\<rparr>,
                 storage = storage_full, console = [], notified = []\<rparr>"

text \<open>
  Observers of which the one subscribed first does not just return: it throws, or it
  unsubscribes the second one.
\<close>

definition throwing_first :: observers where
  "throwing_first l s = (if l = 0 then Throws (Exn ''Error'' ''observer failed'') else Returns)"

definition unsubscribing_first :: observers where
  "unsubscribing_first l s = (if l = 0 then Unsubscribes 1 else Returns)"

section \<open>JSON: parsing what was serialised\<close>

lemma hex_value_digit: "n < 16 \<Longrightarrow> hex_value (hex_digit n) = Some n"
proof -
  assume "n < 16"
  then consider "n = 0" | "n = 1" | "n = 2" | "n = 3" | "n = 4" | "n = 5" | "n = 6" | "n = 7"
    | "n = 8" | "n = 9" | "n = 10" | "n = 11" | "n = 12" | "n = 13" | "n = 14" | "n = 15"
    by atomize_elim arith
  then show ?thesis
    by cases (simp_all add: hex_value_def hex_digit_def)
qed

lemma char_by_code: "of_char c = (of_char d :: nat) \<Longrightarrow> c = d"
  by simp

lemma hex4_00: "a < 16 \<Longrightarrow> b < 16 \<Longrightarrow>
  hex4 (CHR ''0'') (CHR ''0'') (hex_digit a) (hex_digit b) = Some (16 * a + b)"
  by (simp add: hex4_def hex_value_digit) (simp add: hex_value_def)

lemma read_chars_escape:
  "read_chars (escape_char c @ r) = map_option (cons_char c) (read_chars r)"
proof -
  define n where "n = (of_char c :: nat)"
  have c: "char_of n = c" by (simp add: n_def)
  have n: "n < 256" by (simp add: n_def)
  consider "n = 0x08" | "n = 0x09" | "n = 0x0A" | "n = 0x0C" | "n = 0x0D" | "n = 0x22" | "n = 0x5C"
    | "n < 0x20" "n \<notin> {0x08, 0x09, 0x0A, 0x0C, 0x0D}" | "n \<ge> 0x20" "n \<noteq> 0x22" "n \<noteq> 0x5C"
    by fastforce
  then show ?thesis
  proof cases
    case 8
    have h: "hex4 (CHR ''0'') (CHR ''0'') (hex_digit (n div 16)) (hex_digit (n mod 16)) = Some n"
      using hex4_00[of "n div 16" "n mod 16"] 8 by simp
    have e: "escape_char c = [CHR 0x5C, CHR ''u'', CHR ''0'', CHR ''0'', hex_digit (n div 16), hex_digit (n mod 16)]"
      using 8 by (auto simp: escape_char_def n_def[symmetric])
    have "read_chars ([CHR 0x5C, CHR ''u'', CHR ''0'', CHR ''0'', hex_digit (n div 16), hex_digit (n mod 16)] @ r)
          = map_option (cons_char (char_of n)) (read_chars r)"
      using h n by simp
    then show ?thesis by (simp only: e c)
  next
    case 9
    have "c \<noteq> CHR 0x22" "c \<noteq> CHR 0x5C" using 9 by (auto simp: n_def)
    moreover have "escape_char c = [c]"
      using 9 by (auto simp: escape_char_def n_def[symmetric])
    ultimately show ?thesis using 9 by (simp add: n_def)
  next
    case 1 then have "c = CHR 0x08" by (intro char_by_code[of c]) (simp_all add: n_def)
    then show ?thesis by (simp add: escape_char_def unescape_def)
  next
    case 2 then have "c = CHR 0x09" by (intro char_by_code[of c]) (simp_all add: n_def)
    then show ?thesis by (simp add: escape_char_def unescape_def)
  next
    case 3 then have "c = CHR 0x0A" by (intro char_by_code[of c]) (simp_all add: n_def)
    then show ?thesis by (simp add: escape_char_def unescape_def)
  next
    case 4 then have "c = CHR 0x0C" by (intro char_by_code[of c]) (simp_all add: n_def)
    then show ?thesis by (simp add: escape_char_def unescape_def)
  next
    case 5 then have "c = CHR 0x0D" by (intro char_by_code[of c]) (simp_all add: n_def)
    then show ?thesis by (simp add: escape_char_def unescape_def)
  next
    case 6 then have "c = CHR 0x22" by (intro char_by_code[of c]) (simp_all add: n_def)
    then show ?thesis by (simp add: escape_char_def unescape_def)
  next
    case 7 then have "c = CHR 0x5C" by (intro char_by_code[of c]) (simp_all add: n_def)
    then show ?thesis by (simp add: escape_char_def unescape_def)
  qed
qed

lemma read_chars_quoted:
  "read_chars (concat (map escape_char s) @ CHR 0x22 # r) = Some (Some s, r)"
  by (induction s) (simp_all add: read_chars_escape cons_char_def)

lemma lex_quote: "lex (quote s @ r) = map_option (Cons (TString s)) (lex r)"
  by (simp add: quote_def is_json_ws_def read_chars_quoted string_token_def)

lemma lex_item: "lex (stringify_item t @ r) = map_option ((@) (tokens_item t)) (lex r)"
  by (cases "createdAt t"; cases "lex r")
     (simp_all add: stringify_item_def tokens_item_def lex_quote is_json_ws_def)

lemma lex_join:
  "lex (join_items (map stringify_item xs) @ r) = map_option ((@) (tokens_items xs)) (lex r)"
proof (induction xs rule: tokens_items.induct)
  case 1
  show ?case by (cases "lex r") simp_all
next
  case (2 x)
  show ?case by (simp add: lex_item)
next
  case (3 x y ys)
  then show ?case
    by (cases "lex r") (simp_all add: lex_item is_json_ws_def)
qed

lemma lex_stringify: "lex (JSON_stringify xs) = Some (LBrack # tokens_items xs @ [RBrack])"
  using lex_join[of xs "'']''"] by (simp add: JSON_stringify_def is_json_ws_def)

lemma parse_object_item: "parse_object (tokens_item t @ r) = Some (members_item t, r)"
  by (cases "createdAt t") (simp_all add: parse_object_def tokens_item_def members_item_def)

lemma decode_members: "decode_item (members_item t) = Some t"
  by (cases "createdAt t") (simp_all add: decode_item_def members_item_def item_keys_def)

lemma parse_elements_items:
  "xs \<noteq> [] \<Longrightarrow> parse_elements (tokens_items xs @ RBrack # r) = Some (xs, r)"
proof (induction xs rule: tokens_items.induct)
  case 1
  then show ?case by simp
next
  case (2 x)
  show ?case
    by (subst parse_elements.simps) (simp add: parse_object_item decode_members)
next
  case (3 x y ys)
  then show ?case
    by (subst parse_elements.simps) (simp add: parse_object_item decode_members)
qed

lemma tokens_items_head: "xs \<noteq> [] \<Longrightarrow> \<exists>ts. tokens_items xs = LBrace # ts"
  by (induction xs rule: tokens_items.induct) (simp_all add: tokens_item_def)

lemma accepts_item:
  assumes "p = Value \<or> p = ValueOrEnd"
  shows "accepts p (InArray # st) (tokens_item t @ r) = accepts AfterValue (InArray # st) r"
  using assms
  by (cases "createdAt t"; cases "completed t")
     (auto simp: tokens_item_def pda_step_def close_frame_def)

lemma accepts_items:
  assumes "xs \<noteq> []" and "p = Value \<or> p = ValueOrEnd"
  shows "accepts p [InArray] (tokens_items xs @ [RBrack])"
  using assms
proof (induction xs arbitrary: p rule: tokens_items.induct)
  case 1
  then show ?case by simp
next
  case (2 x)
  then show ?case
    by (simp add: accepts_item pda_step_def close_frame_def)
next
  case (3 x y ys)
  have "accepts Value [InArray] (tokens_items (y # ys) @ [RBrack])"
    by (rule "3.IH") simp_all
  then show ?case
    using "3.prems"(2) by (simp add: accepts_item pda_step_def)
qed

lemma is_json_stringify: "is_json (LBrack # tokens_items xs @ [RBrack])"
proof (cases "xs = []")
  case True
  then show ?thesis by (simp add: is_json_def pda_step_def close_frame_def)
next
  case False
  then show ?thesis
    using accepts_items[of xs ValueOrEnd] by (simp add: is_json_def pda_step_def)
qed

lemma parse_items_stringify: "parse_items (LBrack # tokens_items xs @ [RBrack]) = Some xs"
proof (cases "xs = []")
  case True
  then show ?thesis by (simp add: parse_items_def)
next
  case False
  then obtain ts where ts: "tokens_items xs = LBrace # ts"
    using tokens_items_head by blast
  have "parse_elements ((LBrace # ts) @ [RBrack]) = Some (xs, [])"
    using parse_elements_items[OF False, of "[]"] by (simp add: ts)
  then show ?thesis
    by (simp add: parse_items_def ts)
qed

lemma JSON_roundtrip: "JSON_parse (JSON_stringify xs) = Inr (Typed xs)"
  by (simp add: JSON_parse_def lex_stringify is_json_stringify parse_items_stringify)

lemma JSON_stringify_nonempty: "JSON_stringify xs \<noteq> []"
  by (simp add: JSON_stringify_def)

section \<open>The store: writes, notifications, snapshots\<close>

lemma state_of_and_then:
  "state_of (and_then c f) = (case c of Normal s \<Rightarrow> state_of (f s) | Abrupt e s \<Rightarrow> s)"
  by (cases c) (simp_all add: and_then_def)

lemma call_listener_Returns:
  "react l s = Returns \<Longrightarrow> call_listener react l s = Normal (s\<lparr>notified := notified s @ [l]\<rparr>)"
  by (simp add: call_listener_def Let_def)

lemma forEach_returning:
  assumes "\<And>l s'. l \<in> set ls \<Longrightarrow> react l s' = Returns" and "set ls \<subseteq> set (listeners s)"
  shows "forEach ls (call_listener react) s = Normal (s\<lparr>notified := notified s @ ls\<rparr>)"
  using assms
proof (induction ls arbitrary: s)
  case Nil
  show ?case by simp
next
  case (Cons l ls)
  let ?s1 = "s\<lparr>notified := notified s @ [l]\<rparr>"
  have "forEach ls (call_listener react) ?s1 = Normal (?s1\<lparr>notified := notified ?s1 @ ls\<rparr>)"
    using Cons.prems by (intro Cons.IH) auto
  then show ?case
    using Cons.prems by (simp add: call_listener_Returns)
qed

lemma updateTodos_Normal:
  assumes "\<And>l s'. l \<in> set (listeners s) \<Longrightarrow> react l s' = Returns"
  shows "updateTodos react x s = Normal (written x s)"
proof (cases "localStorage_setItem (storage s) ''todos'' (JSON_stringify (elems x))")
  case (Inl err)
  let ?s1 = "s\<lparr>todos := x, console := console s @ [(''Failed to persist:'', err)]\<rparr>"
  have "forEach (listeners ?s1) (call_listener react) ?s1
        = Normal (?s1\<lparr>notified := notified ?s1 @ listeners ?s1\<rparr>)"
    using assms by (intro forEach_returning) auto
  then show ?thesis
    using Inl
    by (simp add: updateTodos_def persist_def try_catch_def and_then_def console_error_def
        written_def)
next
  case (Inr ls)
  let ?s1 = "s\<lparr>todos := x, storage := ls\<rparr>"
  have "forEach (listeners ?s1) (call_listener react) ?s1
        = Normal (?s1\<lparr>notified := notified ?s1 @ listeners ?s1\<rparr>)"
    using assms by (intro forEach_returning) auto
  then show ?thesis
    using Inr
    by (simp add: updateTodos_def persist_def try_catch_def and_then_def console_error_def
        written_def)
qed

lemma updateTodos_returning: "updateTodos returning x s = Normal (written x s)"
  by (rule updateTodos_Normal) (simp add: returning_def)

lemma written_fields [simp]:
  "todos (written x s) = x"
  "listeners (written x s) = listeners s"
  "notified (written x s) = notified s @ listeners s"
  by (simp_all add: written_def split: sum.splits)

lemma count_list_distinct: "distinct xs \<Longrightarrow> x \<in> set xs \<Longrightarrow> count_list xs x = 1"
  by (induction xs) auto

text \<open>What a call of an observer, and the iteration over the observers, leave untouched.\<close>

lemma call_listener_frame:
  "storage (state_of (call_listener react l s)) = storage s"
  "todos (state_of (call_listener react l s)) = todos s"
  "console (state_of (call_listener react l s)) = console s"
  "notified (state_of (call_listener react l s)) = notified s @ [l]"
  "set (listeners (state_of (call_listener react l s))) \<subseteq> set (listeners s)"
  "distinct (listeners s) \<Longrightarrow> distinct (listeners (state_of (call_listener react l s)))"
  by (auto simp: call_listener_def Let_def unsubscribe_def Set_delete_def distinct_removeAll
      split: reaction.splits)

lemma forEach_frame:
  "storage (state_of (forEach ls (call_listener react) s)) = storage s
   \<and> todos (state_of (forEach ls (call_listener react) s)) = todos s
   \<and> console (state_of (forEach ls (call_listener react) s)) = console s
   \<and> set (listeners (state_of (forEach ls (call_listener react) s))) \<subseteq> set (listeners s)
   \<and> (distinct (listeners s)
        \<longrightarrow> distinct (listeners (state_of (forEach ls (call_listener react) s))))
   \<and> (l \<notin> set (listeners s)
        \<longrightarrow> count_list (notified (state_of (forEach ls (call_listener react) s))) l
            = count_list (notified s) l)"
proof (induction ls arbitrary: s)
  case Nil
  show ?case by simp
next
  case (Cons k ls)
  show ?case
  proof (cases "k \<in> set (listeners s)")
    case False
    then show ?thesis
      using Cons.IH[of s] by simp
  next
    case True
    note f = call_listener_frame[where react = react and l = k and s = s]
    show ?thesis
    proof (cases "call_listener react k s")
      case (Normal s1)
      have s1: "state_of (call_listener react k s) = s1"
        by (simp add: Normal)
      have c: "l \<notin> set (listeners s) \<Longrightarrow> count_list (notified s1) l = count_list (notified s) l"
        using f(4) True by (auto simp: s1)
      show ?thesis
        using Cons.IH[of s1] True Normal f(1,2,3,5,6) c unfolding s1 by auto
    next
      case (Abrupt e s1)
      have s1: "state_of (call_listener react k s) = s1"
        by (simp add: Abrupt)
      have c: "l \<notin> set (listeners s) \<Longrightarrow> count_list (notified s1) l = count_list (notified s) l"
        using f(4) True by (auto simp: s1)
      show ?thesis
        using True Abrupt f(1,2,3,5,6) c unfolding s1 by auto
    qed
  qed
qed

lemma updateTodos_frame:
  "storage (state_of (updateTodos react x s)) = storage (written x s)"
  "todos (state_of (updateTodos react x s)) = x"
  "console (state_of (updateTodos react x s)) = console (written x s)"
  "set (listeners (state_of (updateTodos react x s))) \<subseteq> set (listeners s)"
  "distinct (listeners s) \<Longrightarrow> distinct (listeners (state_of (updateTodos react x s)))"
  "l \<notin> set (listeners s)
     \<Longrightarrow> count_list (notified (state_of (updateTodos react x s))) l = count_list (notified s) l"
proof -
  define s1 where "s1 =
    (case localStorage_setItem (storage s) ''todos'' (JSON_stringify (elems x)) of
       Inl err \<Rightarrow> s\<lparr>todos := x, console := console s @ [(''Failed to persist:'', err)]\<rparr>
     | Inr ls \<Rightarrow> s\<lparr>todos := x, storage := ls\<rparr>)"
  have u: "updateTodos react x s = forEach (listeners s1) (call_listener react) s1"
    by (simp add: updateTodos_def persist_def try_catch_def and_then_def console_error_def
        s1_def split: sum.splits)
  have s1: "storage s1 = storage (written x s)" "todos s1 = x"
    "console s1 = console (written x s)" "listeners s1 = listeners s" "notified s1 = notified s"
    by (simp_all add: s1_def written_def split: sum.splits)
  note f = forEach_frame[where ls = "listeners s1" and react = react and s = s1 and l = l]
  show "storage (state_of (updateTodos react x s)) = storage (written x s)"
    using f by (simp add: u s1)
  show "todos (state_of (updateTodos react x s)) = x"
    using f by (simp add: u s1)
  show "console (state_of (updateTodos react x s)) = console (written x s)"
    using f by (simp add: u s1)
  show "set (listeners (state_of (updateTodos react x s))) \<subseteq> set (listeners s)"
    using f by (simp add: u s1)
  show "distinct (listeners s) \<Longrightarrow> distinct (listeners (state_of (updateTodos react x s)))"
    using f by (simp add: u s1)
  show "l \<notin> set (listeners s)
     \<Longrightarrow> count_list (notified (state_of (updateTodos react x s))) l = count_list (notified s) l"
    using f by (simp add: u s1)
qed

lemma createTodoStore_Inr:
  "createTodoStore ls a =
     (case load_todos ls of
        Inl e \<Rightarrow>
          Inr (Typed \<lparr>listeners = [], todos = \<lparr>addr = a, elems = []\<rparr>, storage = ls,
                      console = [], notified = []\<rparr>)
      | Inr Untyped \<Rightarrow> Inr Untyped
      | Inr (Typed xs) \<Rightarrow>
          Inr (Typed \<lparr>listeners = [], todos = \<lparr>addr = a, elems = xs\<rparr>, storage = ls,
                      console = [], notified = []\<rparr>))"
  by (simp add: createTodoStore_def try_value_def split: sum.splits modelled.splits)

lemma load_todos_written:
  "localStorage_setItem ls ''todos'' (JSON_stringify xs) = Inr ls'
     \<Longrightarrow> load_todos ls' = Inr (Typed xs)"
  by (auto simp: localStorage_setItem_def load_todos_def localStorage_getItem_def
      JSON_roundtrip JSON_stringify_nonempty split: if_splits)

lemma run_op_Normal:
  assumes "\<forall>l s'. react l s' = Returns"
  shows "\<exists>s'. run_op react op s = Normal s'"
  using assms by (cases op) (simp_all add: updateTodos_Normal)

lemma run_ops_Normal:
  assumes "\<forall>l s'. react l s' = Returns"
  shows "\<exists>s'. run_ops react ops s = Normal s'"
proof (induction ops arbitrary: s)
  case Nil
  show ?case by simp
next
  case (Cons op ops)
  obtain s1 where "run_op react op s = Normal s1"
    using run_op_Normal[OF assms, of op s] by blast
  then show ?case
    using Cons.IH[of s1] by (simp add: and_then_def)
qed

lemma run_op_unsubscribed:
  assumes "l \<notin> set (listeners s)" and "op \<noteq> Subscribe l"
  shows "l \<notin> set (listeners (state_of (run_op react op s)))
         \<and> count_list (notified (state_of (run_op react op s))) l = count_list (notified s) l"
proof (cases op)
  case (UpdateTodos x)
  show ?thesis
    using updateTodos_frame(4)[where react = react and x = x and s = s]
      updateTodos_frame(6)[where react = react and x = x and s = s and l = l] assms(1)
    by (auto simp: UpdateTodos)
qed (use assms in \<open>auto simp: subscribe_def unsubscribe_def Set_add_def Set_delete_def\<close>)

lemma run_ops_unsubscribed:
  assumes "l \<notin> set (listeners s)" and "Subscribe l \<notin> set ops"
  shows "l \<notin> set (listeners (state_of (run_ops react ops s)))
         \<and> count_list (notified (state_of (run_ops react ops s))) l = count_list (notified s) l"
  using assms
proof (induction ops arbitrary: s)
  case Nil
  then show ?case by simp
next
  case (Cons op ops)
  have 1: "l \<notin> set (listeners (state_of (run_op react op s)))
           \<and> count_list (notified (state_of (run_op react op s))) l = count_list (notified s) l"
    using run_op_unsubscribed[OF Cons.prems(1), where op = op and react = react] Cons.prems(2)
    by auto
  show ?case
  proof (cases "run_op react op s")
    case (Normal s1)
    then show ?thesis
      using 1 Cons.IH[of s1] Cons.prems(2) by (simp add: and_then_def)
  next
    case (Abrupt e s1)
    then show ?thesis
      using 1 by (simp add: and_then_def)
  qed
qed

lemma run_op_snapshot:
  assumes "\<not> is_update op"
  shows "\<exists>s'. run_op react op s = Normal s' \<and> todos s' = todos s"
  using assms by (cases op) (auto simp: subscribe_def unsubscribe_def Set_delete_def)

lemma run_ops_snapshot:
  assumes "list_all (\<lambda>op. \<not> is_update op) ops"
  shows "\<exists>s'. run_ops react ops s = Normal s' \<and> todos s' = todos s"
  using assms
proof (induction ops arbitrary: s)
  case Nil
  then show ?case by simp
next
  case (Cons op ops)
  obtain s1 where s1: "run_op react op s = Normal s1" "todos s1 = todos s"
    using run_op_snapshot[where op = op and react = react and s = s] Cons.prems by auto
  show ?case
    using Cons.IH[of s1] Cons.prems s1 by (simp add: and_then_def)
qed

lemma run_op_distinct:
  assumes "distinct (listeners s)"
  shows "distinct (listeners (state_of (run_op react op s)))"
proof (cases op)
  case (UpdateTodos x)
  show ?thesis
    using updateTodos_frame(5)[where react = react and x = x and s = s] assms
    by (simp add: UpdateTodos)
qed (use assms in
      \<open>auto simp: subscribe_def unsubscribe_def Set_add_def Set_delete_def distinct_removeAll\<close>)

lemma run_ops_distinct:
  assumes "distinct (listeners s)"
  shows "distinct (listeners (state_of (run_ops react ops s)))"
  using assms
proof (induction ops arbitrary: s)
  case Nil
  then show ?case by simp
next
  case (Cons op ops)
  have 1: "distinct (listeners (state_of (run_op react op s)))"
    using run_op_distinct[OF Cons.prems] .
  show ?case
  proof (cases "run_op react op s")
    case (Normal s1)
    then show ?thesis
      using 1 Cons.IH[of s1] by (simp add: and_then_def)
  next
    case (Abrupt e s1)
    then show ?thesis
      using 1 by (simp add: and_then_def)
  qed
qed

lemma created_store_distinct:
  assumes "createTodoStore ls a = Inr (Typed s)"
  shows "distinct (listeners (state_of (run_ops react ops s)))"
proof -
  have "listeners s = []"
    using assms by (auto simp: createTodoStore_Inr split: sum.splits modelled.splits)
  then show ?thesis
    by (intro run_ops_distinct) simp
qed

lemma store_full_write:
  "localStorage_setItem (storage store_full) ''todos'' (JSON_stringify [item1])
     = Inl QuotaExceededError"
  by (simp add: localStorage_setItem_def store_full_def storage_full_def JSON_stringify_def
      stringify_item_def quote_def item1_def escape_char_def)

lemma store_full_load: "load_todos (storage store_full) = Inr (Typed [item2])"
  by (simp add: load_todos_def localStorage_getItem_def store_full_def storage_full_def
      JSON_roundtrip JSON_stringify_nonempty)

section \<open>Claims about the store\<close>

text \<open>
  C5, as stated, fails: the round trip through the durable storage needs the write of
  \<open>updateTodos\<close> to succeed, and the \<open>catch\<close> block of \<open>updateTodos\<close> lets the write
  fail silently. On a storage that is full and holds the list \<open>[item2]\<close>, writing the
  list \<open>[item1]\<close> (one code unit longer) throws QuotaExceededError; reading still works,
  and a fresh store starts with the list \<open>[item2]\<close> that is still stored: neither the list
  written nor the empty list.
\<close>

theorem C5_roundtrip_counterexample:
  "localStorage_setItem (storage store_full) ''todos'' (JSON_stringify [item1])
     = Inl QuotaExceededError
   \<and> update_then_reload returning \<lparr>addr = 1, elems = [item1]\<rparr> store_full 2
       = Inr (Typed [item2])
   \<and> update_then_reload returning \<lparr>addr = 1, elems = [item1]\<rparr> store_full 2
       \<noteq> Inr (Typed (elems \<lparr>addr = 1, elems = [item1]\<rparr>))
   \<and> update_then_reload returning \<lparr>addr = 1, elems = [item1]\<rparr> store_full 2
       \<noteq> Inr (Typed [])"
proof -
  have "update_then_reload returning \<lparr>addr = 1, elems = [item1]\<rparr> store_full 2
        = Inr (Typed [item2])"
    by (simp add: update_then_reload_def updateTodos_returning written_def store_full_write
        createTodoStore_Inr store_full_load initial_list_def getSnapshot_def)
  then show ?thesis
    using store_full_write by (simp add: item1_def item2_def)
qed

text \<open>
  C5, amended: for every list \<open>x\<close> and whatever the observers do, when the durable write
  of \<open>updateTodos(x)\<close> succeeds, a fresh store created from the durable storage starts
  with a list deep-equal to \<open>x\<close>; when the write throws, the durable storage is as it was
  and the fresh store starts with what a store created before the call would have started
  with. Creating a store never throws. When reading the storage throws, or the key is
  absent or holds the empty string, or \<open>JSON.parse\<close> throws at the stored text (the text
  is not JSON, such as \<open>{oops\<close>), the fresh store starts with the empty list. When the
  stored text is JSON, the fresh store starts with the value \<open>JSON.parse\<close> returns for
  it, which need not be a list (\<open>null\<close>, say).
\<close>

theorem C5_roundtrip_when_written:
  "(\<forall>ls'. localStorage_setItem (storage s) ''todos'' (JSON_stringify (elems x)) = Inr ls'
       \<longrightarrow> update_then_reload react x s a = Inr (Typed (elems x)))
   \<and> (\<forall>e. localStorage_setItem (storage s) ''todos'' (JSON_stringify (elems x)) = Inl e
       \<longrightarrow> update_then_reload react x s a = initial_list (createTodoStore (storage s) a))
   \<and> (\<exists>fresh. createTodoStore ls b = Inr fresh)
   \<and> ((\<exists>e. localStorage_getItem ls ''todos'' = Inl e)
        \<or> localStorage_getItem ls ''todos'' = Inr None
        \<or> localStorage_getItem ls ''todos'' = Inr (Some [])
        \<or> (\<exists>str e. localStorage_getItem ls ''todos'' = Inr (Some str) \<and> JSON_parse str = Inl e)
       \<longrightarrow> (\<exists>fresh. createTodoStore ls b = Inr (Typed fresh)
                    \<and> elems (getSnapshot fresh) = []))
   \<and> (\<forall>str v. localStorage_getItem ls ''todos'' = Inr (Some str) \<and> str \<noteq> []
                \<and> JSON_parse str = Inr v
       \<longrightarrow> initial_list (createTodoStore ls b) = Inr v)"
proof (intro conjI allI impI)
  fix ls'
  assume w: "localStorage_setItem (storage s) ''todos'' (JSON_stringify (elems x)) = Inr ls'"
  show "update_then_reload react x s a = Inr (Typed (elems x))"
    by (simp add: update_then_reload_def updateTodos_frame(1) written_def w createTodoStore_Inr
        load_todos_written[OF w] initial_list_def getSnapshot_def)
next
  fix e
  assume w: "localStorage_setItem (storage s) ''todos'' (JSON_stringify (elems x)) = Inl e"
  show "update_then_reload react x s a = initial_list (createTodoStore (storage s) a)"
    by (simp add: update_then_reload_def updateTodos_frame(1) written_def w)
next
  show "\<exists>fresh. createTodoStore ls b = Inr fresh"
    by (simp add: createTodoStore_Inr split: sum.splits modelled.splits)
next
  assume "(\<exists>e. localStorage_getItem ls ''todos'' = Inl e)
        \<or> localStorage_getItem ls ''todos'' = Inr None
        \<or> localStorage_getItem ls ''todos'' = Inr (Some [])
        \<or> (\<exists>str e. localStorage_getItem ls ''todos'' = Inr (Some str) \<and> JSON_parse str = Inl e)"
  then have "(\<exists>e. load_todos ls = Inl e) \<or> load_todos ls = Inr (Typed [])"
    by (auto simp: load_todos_def)
  then show "\<exists>fresh. createTodoStore ls b = Inr (Typed fresh) \<and> elems (getSnapshot fresh) = []"
    by (auto simp: createTodoStore_Inr getSnapshot_def)
next
  fix str v
  assume "localStorage_getItem ls ''todos'' = Inr (Some str) \<and> str \<noteq> []
           \<and> JSON_parse str = Inr v"
  then have "load_todos ls = Inr v"
    by (simp add: load_todos_def)
  then show "initial_list (createTodoStore ls b) = Inr v"
    by (cases v) (simp_all add: createTodoStore_Inr initial_list_def getSnapshot_def)
qed

text \<open>
  The theorem at work: a write that fits (the list \<open>[item2]\<close> on the roomy storage of
  \<open>store1\<close>) comes back from a fresh store, also when the first observer throws; a write
  that does not fit (the list \<open>[item1]\<close> on the full storage) leaves the stored list
  \<open>[item2]\<close> to the fresh store; a stored text that is not JSON (\<open>{oops\<close>) gives a fresh
  store with the empty list; and the stored text \<open>null\<close> gives a store that holds what
  \<open>JSON.parse\<close> returns for it, no list.
\<close>

theorem C5_roundtrip_when_written_witness:
  "localStorage_setItem (storage store1) ''todos'' (JSON_stringify [item2])
     = Inr (storage1\<lparr>items := (items storage1)(''todos'' \<mapsto> JSON_stringify [item2])\<rparr>)
   \<and> update_then_reload throwing_first \<lparr>addr = 1, elems = [item2]\<rparr> store1 2
       = Inr (Typed [item2])
   \<and> localStorage_setItem (storage store_full) ''todos'' (JSON_stringify [item1])
       = Inl QuotaExceededError
   \<and> update_then_reload throwing_first \<lparr>addr = 1, elems = [item1]\<rparr> store_full 2
       = Inr (Typed [item2])
   \<and> JSON_parse ''{oops'' = Inl SyntaxError
   \<and> (\<exists>fresh. createTodoStore \<lparr>items = [''todos'' \<mapsto> ''{oops''], blocked = False, quota = 100\<rparr> 0
                 = Inr (Typed fresh) \<and> elems (getSnapshot fresh) = [])
   \<and> JSON_parse ''null'' = Inr Untyped
   \<and> initial_list
        (createTodoStore \<lparr>items = [''todos'' \<mapsto> ''null''], blocked = False, quota = 100\<rparr> 0)
       = Inr Untyped"
proof -
  let ?broken = "\<lparr>items = [''todos'' \<mapsto> ''{oops''], blocked = False, quota = 100\<rparr>"
  let ?null = "\<lparr>items = [''todos'' \<mapsto> ''null''], blocked = False, quota = 100\<rparr>"
  have w: "localStorage_setItem (storage store1) ''todos'' (JSON_stringify [item2])
     = Inr (storage1\<lparr>items := (items storage1)(''todos'' \<mapsto> JSON_stringify [item2])\<rparr>)"
    by (simp add: localStorage_setItem_def store1_def storage1_def JSON_stringify_def
        stringify_item_def quote_def item2_def escape_char_def)
  have c: "initial_list (createTodoStore (storage store_full) 2) = Inr (Typed [item2])"
    by (simp add: createTodoStore_Inr store_full_load initial_list_def getSnapshot_def)
  have f: "update_then_reload throwing_first \<lparr>addr = 1, elems = [item1]\<rparr> store_full 2
           = Inr (Typed [item2])"
    using C5_roundtrip_when_written[of store_full "\<lparr>addr = 1, elems = [item1]\<rparr>"
        throwing_first 2 ?null 0] store_full_write
    by (simp add: c)
  have p: "JSON_parse ''{oops'' = Inl SyntaxError"
    by (simp add: JSON_parse_def is_json_ws_def is_digit_def)
  have g: "localStorage_getItem ?broken ''todos'' = Inr (Some ''{oops'')"
    by (simp add: localStorage_getItem_def)
  have n: "JSON_parse ''null'' = Inr Untyped"
    by (simp add: JSON_parse_def is_json_ws_def is_json_def pda_step_def parse_items_def)
  have h: "localStorage_getItem ?null ''todos'' = Inr (Some ''null'')"
    by (simp add: localStorage_getItem_def)
  have o: "\<exists>fresh. createTodoStore ?broken 0 = Inr (Typed fresh) \<and> elems (getSnapshot fresh) = []"
    using C5_roundtrip_when_written[of store1 "\<lparr>addr = 1, elems = [item2]\<rparr>"
        throwing_first 2 ?broken 0] p g
    by simp
  have r: "update_then_reload throwing_first \<lparr>addr = 1, elems = [item2]\<rparr> store1 2
           = Inr (Typed [item2])"
    using C5_roundtrip_when_written[of store1 "\<lparr>addr = 1, elems = [item2]\<rparr>"
        throwing_first 2 ?null 0] w
    by simp
  have u: "initial_list (createTodoStore ?null 0) = Inr Untyped"
    using C5_roundtrip_when_written[of store1 "\<lparr>addr = 1, elems = [item2]\<rparr>"
        throwing_first 2 ?null 0] n h
    by simp
  show ?thesis
    using w r store_full_write f p o n u by simp
qed

text \<open>
  C6, as stated, fails: \<open>updateTodos\<close> calls the observers after its \<open>try\<close> statement, so
  what an observer throws leaves \<open>updateTodos\<close> and ends the iteration, and an observer
  may remove another one before its turn. On the store with the observers 0 and 1 whose
  durable storage is full: when observer 0 throws, \<open>updateTodos\<close> throws that error to
  its caller and observer 1 is not called; when observer 0 unsubscribes observer 1,
  \<open>updateTodos\<close> returns and observer 1, subscribed when the call was made, is not called.
\<close>

theorem C6_throwing_observer_counterexample:
  "listeners store_full = [0, 1]
   \<and> updateTodos throwing_first \<lparr>addr = 1, elems = [item1]\<rparr> store_full
       = Abrupt (Exn ''Error'' ''observer failed'')
           (store_full\<lparr>todos := \<lparr>addr = 1, elems = [item1]\<rparr>,
                       console := [(''Failed to persist:'', QuotaExceededError)],
                       notified := [0]\<rparr>)
   \<and> updateTodos unsubscribing_first \<lparr>addr = 1, elems = [item1]\<rparr> store_full
       = Normal (store_full\<lparr>listeners := [0], todos := \<lparr>addr = 1, elems = [item1]\<rparr>,
                            console := [(''Failed to persist:'', QuotaExceededError)],
                            notified := [0]\<rparr>)"
proof -
  have l: "listeners store_full = [0, 1]"
    by (simp add: store_full_def)
  have n: "notified store_full = []" "console store_full = []"
    by (simp_all add: store_full_def)
  show ?thesis
    using store_full_write
    by (simp add: updateTodos_def persist_def try_catch_def and_then_def console_error_def
        call_listener_def Let_def throwing_first_def unsubscribing_first_def unsubscribe_def
        Set_delete_def l n)
qed

text \<open>
  C6, amended: on a store whose subscribed observers return normally and do not call
  back into the store, \<open>updateTodos(newTodos)\<close> returns normally, whatever the durable
  storage does; the store then holds \<open>newTodos\<close> (the very array), and the call has
  invoked the subscribed observers, each exactly once and nothing else, before it
  returned. When the write throws, the error is logged to the console and the storage is
  left as it was. The subscribed observers are the elements of a Set, a list without
  repetitions here, as it is in every state of a store that \<open>createTodoStore\<close> made
  (\<open>created_store_distinct\<close>).
\<close>

theorem C6_updateTodos_notifies_returning_observers:
  assumes "distinct (listeners s)" and "\<forall>l \<in> set (listeners s). \<forall>s'. react l s' = Returns"
  shows "\<exists>s'. updateTodos react newTodos s = Normal s'
           \<and> getSnapshot s' = newTodos
           \<and> listeners s' = listeners s
           \<and> notified s' = notified s @ listeners s
           \<and> (\<forall>l. count_list (drop (length (notified s)) (notified s')) l
                   = (if l \<in> set (listeners s) then 1 else 0))
           \<and> (\<forall>err. localStorage_setItem (storage s) ''todos'' (JSON_stringify (elems newTodos))
                      = Inl err
                 \<longrightarrow> storage s' = storage s
                     \<and> console s' = console s @ [(''Failed to persist:'', err)])"
proof -
  have s': "updateTodos react newTodos s = Normal (written newTodos s)"
    using assms(2) by (intro updateTodos_Normal) simp
  have "count_list (listeners s) l = (if l \<in> set (listeners s) then 1 else 0)" for l
    using assms(1) by (simp add: count_list_distinct)
  then have c: "\<forall>l. count_list (drop (length (notified s)) (notified (written newTodos s))) l
                   = (if l \<in> set (listeners s) then 1 else 0)"
    by simp
  have "storage (written newTodos s) = storage s
        \<and> console (written newTodos s) = console s @ [(''Failed to persist:'', err)]"
    if "localStorage_setItem (storage s) ''todos'' (JSON_stringify (elems newTodos)) = Inl err"
    for err
    using that by (simp add: written_def)
  then show ?thesis
    using s' c by (simp add: getSnapshot_def)
qed

text \<open>
  The theorem at work, on the store with the observers 0 and 1 whose durable storage is
  full, when both observers return: the write of \<open>[item1]\<close> throws, and both observers
  are called.
\<close>

theorem C6_updateTodos_notifies_returning_observers_witness:
  "distinct (listeners store_full)
   \<and> returning 0 store_full = Returns \<and> returning 1 store_full = Returns
   \<and> localStorage_setItem (storage store_full) ''todos'' (JSON_stringify [item1])
       = Inl QuotaExceededError
   \<and> updateTodos returning \<lparr>addr = 1, elems = [item1]\<rparr> store_full
       = Normal (store_full\<lparr>todos := \<lparr>addr = 1, elems = [item1]\<rparr>,
                   console := [(''Failed to persist:'', QuotaExceededError)],
                   notified := [0, 1]\<rparr>)"
proof -
  have d: "distinct (listeners store_full)"
    by (simp add: store_full_def)
  have r: "\<forall>l \<in> set (listeners store_full). \<forall>s'. returning l s' = Returns"
    by (simp add: returning_def)
  obtain s' where s': "updateTodos returning \<lparr>addr = 1, elems = [item1]\<rparr> store_full = Normal s'"
      and f: "getSnapshot s' = \<lparr>addr = 1, elems = [item1]\<rparr>" "listeners s' = listeners store_full"
        "notified s' = notified store_full @ listeners store_full"
        "storage s' = storage store_full"
        "console s' = console store_full @ [(''Failed to persist:'', QuotaExceededError)]"
    using C6_updateTodos_notifies_returning_observers[OF d r, of "\<lparr>addr = 1, elems = [item1]\<rparr>"]
      store_full_write
    by auto
  have "s' = store_full\<lparr>todos := \<lparr>addr = 1, elems = [item1]\<rparr>,
                   console := [(''Failed to persist:'', QuotaExceededError)],
                   notified := [0, 1]\<rparr>"
    using f by (cases s') (simp add: store_full_def getSnapshot_def)
  then show ?thesis
    using d store_full_write s' by (simp add: returning_def)
qed

text \<open>
  C7: let \<open>unsub\<close> be the function \<open>subscribe(l)\<close> returned. Once it has been called, in
  whatever state \<open>s\<close> of the store, no sequence of calls of the store's methods that does
  not subscribe \<open>l\<close> again invokes \<open>l\<close>: the number of calls of \<open>l\<close> in the trace stays what
  it was, however many writes the sequence holds. That holds whatever the observers do,
  in the state the sequence leaves when a call of it throws as in the one it leaves when
  all return; and when the observers return, every call of the sequence returns.
\<close>

theorem C7_unsubscribed_observer_is_silent:
  assumes "unsub = fst (subscribe l s0)" and "Subscribe l \<notin> set ops"
  shows "count_list (notified (state_of (run_ops react ops (snd (unsub s))))) l
           = count_list (notified s) l
         \<and> (\<exists>s'. run_ops returning ops (snd (unsub s)) = Normal s'
                 \<and> count_list (notified s') l = count_list (notified s) l)"
proof -
  have u: "l \<notin> set (listeners (snd (unsub s)))" "notified (snd (unsub s)) = notified s"
    using assms(1) by (simp_all add: subscribe_def unsubscribe_def Set_delete_def)
  obtain s' where s': "run_ops returning ops (snd (unsub s)) = Normal s'"
    using run_ops_Normal[where react = returning and ops = ops and s = "snd (unsub s)"]
    by (auto simp: returning_def)
  show ?thesis
    using run_ops_unsubscribed[OF u(1) assms(2), where react = react]
      run_ops_unsubscribed[OF u(1) assms(2), where react = returning] s' u(2)
    by simp
qed

text \<open>
  The theorem at work: observer 0 of \<open>store1\<close> unsubscribes; two writes and the
  subscription of another observer follow, and 0 is not called, whether the observers
  return or observer 0 is one that would throw.
\<close>

theorem C7_unsubscribed_observer_is_silent_witness:
  "Subscribe 0 \<notin> set [UpdateTodos \<lparr>addr = 1, elems = []\<rparr>, Subscribe 1,
                        UpdateTodos \<lparr>addr = 2, elems = [item2]\<rparr>]
   \<and> count_list
        (notified (state_of (run_ops throwing_first
           [UpdateTodos \<lparr>addr = 1, elems = []\<rparr>, Subscribe 1,
            UpdateTodos \<lparr>addr = 2, elems = [item2]\<rparr>]
           (snd (fst (subscribe 0 store1) store1))))) 0 = 0
   \<and> (\<exists>s'. run_ops returning [UpdateTodos \<lparr>addr = 1, elems = []\<rparr>, Subscribe 1,
                     UpdateTodos \<lparr>addr = 2, elems = [item2]\<rparr>]
              (snd (fst (subscribe 0 store1) store1)) = Normal s'
            \<and> count_list (notified s') 0 = 0 \<and> notified s' = [1])"
proof -
  have n: "Subscribe 0 \<notin> set [UpdateTodos \<lparr>addr = 1, elems = []\<rparr>, Subscribe 1,
                        UpdateTodos \<lparr>addr = 2, elems = [item2]\<rparr>]"
    by simp
  note t = C7_unsubscribed_observer_is_silent[OF refl n, of throwing_first store1 store1]
  obtain s' where s': "run_ops returning [UpdateTodos \<lparr>addr = 1, elems = []\<rparr>, Subscribe 1,
                     UpdateTodos \<lparr>addr = 2, elems = [item2]\<rparr>]
              (snd (fst (subscribe 0 store1) store1)) = Normal s'"
      and c: "count_list (notified s') 0 = count_list (notified store1) 0"
    using t by blast
  have "notified s' = [1]"
    using s'
    by (auto simp: subscribe_def unsubscribe_def Set_delete_def Set_add_def updateTodos_returning
        and_then_def store1_def)
  then show ?thesis
    using n s' c t by (simp add: store1_def)
qed

text \<open>
  C8: \<open>getSnapshot\<close> returns the array the variable \<open>todos\<close> holds and builds nothing. Over
  any sequence of calls of the store's methods that holds no \<open>updateTodos\<close>, the array
  returned after is the one returned before: the same address (the same reference), and
  so the same elements. No observer is called in such a sequence, so that holds
  whatever the observers would do.
\<close>

theorem C8_getSnapshot_is_stable:
  assumes "list_all (\<lambda>op. \<not> is_update op) ops"
  shows "\<exists>s'. run_ops react ops s = Normal s'
           \<and> addr (getSnapshot s') = addr (getSnapshot s)
           \<and> getSnapshot s' = getSnapshot s"
  using run_ops_snapshot[OF assms, where react = react and s = s]
  by (auto simp: getSnapshot_def)

text \<open>
  The theorem at work: reading the snapshot of \<open>store1\<close>, subscribing, reading again and
  unsubscribing leave the reference at address 0.
\<close>

theorem C8_getSnapshot_is_stable_witness:
  "list_all (\<lambda>op. \<not> is_update op) [GetSnapshot, Subscribe 3, GetSnapshot, Unsubscribe 0]
   \<and> (\<exists>s'. run_ops throwing_first [GetSnapshot, Subscribe 3, GetSnapshot, Unsubscribe 0] store1
              = Normal s'
            \<and> addr (getSnapshot s') = 0
            \<and> getSnapshot s' = \<lparr>addr = 0, elems = [item1]\<rparr>)"
proof -
  have h: "list_all (\<lambda>op. \<not> is_update op) [GetSnapshot, Subscribe 3, GetSnapshot, Unsubscribe 0]"
    by simp
  show ?thesis
    using C8_getSnapshot_is_stable[OF h, of throwing_first store1] h
    by (simp add: getSnapshot_def store1_def)
qed

section \<open>The handlers, written out\<close>

lemma store_call_updateTodos:
  "store_call (updateTodos page_observers x) a = Normal (a\<lparr>todoStore := written x (todoStore a)\<rparr>)"
  by (simp add: store_call_def page_observers_def updateTodos_returning)

lemma step_AddTodo:
  "step (AddTodo now text) a =
     a\<lparr>pending := pending a @ [AddK (todos (todoStore a)) (tempTodo now text) text]\<rparr>"
  by (simp add: handleAddTodo_def report_def useSyncExternalStore_def getSnapshot_def)

lemma step_ToggleTodo:
  "step (ToggleTodo k) a =
     a\<lparr>next_addr := Suc (Suc (next_addr a)),
       todoStore := written \<lparr>addr = Suc (next_addr a),
                             elems = map (toggle_item k) (elems (todos (todoStore a)))\<rparr>
                      (todoStore a),
       pending := pending a @ [ToggleK \<lparr>addr = next_addr a, elems = elems (todos (todoStore a))\<rparr> k]\<rparr>"
  by (simp add: handleToggleTodo_def report_def useSyncExternalStore_def getSnapshot_def
      new_array_def Let_def store_call_updateTodos and_then_def)

lemma step_DeleteTodo:
  "step (DeleteTodo k) a =
     a\<lparr>next_addr := Suc (Suc (next_addr a)),
       todoStore := written \<lparr>addr = Suc (next_addr a),
                             elems = filter (\<lambda>t. todo_id t \<noteq> k) (elems (todos (todoStore a)))\<rparr>
                      (todoStore a),
       pending := pending a @ [DeleteK \<lparr>addr = next_addr a, elems = elems (todos (todoStore a))\<rparr> k]\<rparr>"
  by (simp add: handleDeleteTodo_def report_def useSyncExternalStore_def getSnapshot_def
      new_array_def Let_def store_call_updateTodos and_then_def)

lemma step_UpdateTodo:
  "step (UpdateTodo k text) a =
     a\<lparr>next_addr := Suc (Suc (next_addr a)),
       todoStore := written \<lparr>addr = Suc (next_addr a),
                             elems = map (retext_item k text) (elems (todos (todoStore a)))\<rparr>
                      (todoStore a),
       pending := pending a @
         [UpdateK \<lparr>addr = next_addr a, elems = elems (todos (todoStore a))\<rparr> k text]\<rparr>"
  by (simp add: handleUpdateTodo_def report_def useSyncExternalStore_def getSnapshot_def
      new_array_def Let_def store_call_updateTodos and_then_def)

lemma step_ClearAll:
  "step (ClearAll c) a =
     (if c then
        a\<lparr>next_addr := Suc (next_addr a),
          todoStore := written \<lparr>addr = next_addr a, elems = []\<rparr> (todoStore a),
          toast := Some \<lparr>toast_message = ''All todos cleared'', toast_type = ''success''\<rparr>\<rparr>
      else a)"
  by (simp add: handleClearAll_def report_def new_array_def Let_def store_call_updateTodos
      and_then_def showToast_def)

lemma resume_AddK_resolved:
  "resume (AddK st tmp text) now None a =
     Normal (a\<lparr>next_addr := Suc (next_addr a),
              todoStore := written
                \<lparr>addr = next_addr a,
                 elems = elems st @ [\<lparr>todo_id = show_nat now, todo_text = text, completed = False,
                                      createdAt = Some (toISOString now)\<rparr>]\<rparr>
                (todoStore a),
              toast := Some \<lparr>toast_message = ''Todo added successfully'', toast_type = ''success''\<rparr>\<rparr>)"
  by (simp add: resume_def handleAddTodo_resume_def handleAddTodo_try_def settle_def
      todoApi_addTodo_def try_catch_def new_array_def store_call_updateTodos and_then_def
      showToast_def)

lemma resume_AddK_rejected:
  "resume (AddK st tmp text) now (Some m) a =
     Abrupt (Exn ''Error'' m)
       (a\<lparr>toast := Some \<lparr>toast_message = m, toast_type = ''error''\<rparr>\<rparr>)"
  by (simp add: resume_def handleAddTodo_resume_def handleAddTodo_try_def settle_def
      try_catch_def handleAddTodo_catch_def showToast_def)

lemma resume_ToggleK_resolved: "resume (ToggleK original k) now None a = Normal a"
  by (simp add: resume_def handleToggleTodo_resume_def handleToggleTodo_try_def settle_def
      todoApi_toggleTodo_def try_catch_def)

lemma resume_ToggleK_rejected:
  "resume (ToggleK original k) now (Some m) a =
     Normal (a\<lparr>todoStore := written original (todoStore a),
              toast := Some \<lparr>toast_message = ''Failed to toggle todo'', toast_type = ''error''\<rparr>\<rparr>)"
  by (simp add: resume_def handleToggleTodo_resume_def handleToggleTodo_try_def settle_def
      try_catch_def handleToggleTodo_catch_def store_call_updateTodos and_then_def showToast_def)

lemma resume_DeleteK_resolved:
  "resume (DeleteK original k) now None a =
     Normal (a\<lparr>toast := Some \<lparr>toast_message = ''Todo deleted'', toast_type = ''success''\<rparr>\<rparr>)"
  by (simp add: resume_def handleDeleteTodo_resume_def handleDeleteTodo_try_def settle_def
      todoApi_deleteTodo_def try_catch_def showToast_def)

lemma resume_DeleteK_rejected:
  "resume (DeleteK original k) now (Some m) a =
     Normal (a\<lparr>todoStore := written original (todoStore a),
              toast := Some \<lparr>toast_message = ''Failed to delete todo'', toast_type = ''error''\<rparr>\<rparr>)"
  by (simp add: resume_def handleDeleteTodo_resume_def handleDeleteTodo_try_def settle_def
      try_catch_def handleDeleteTodo_catch_def store_call_updateTodos and_then_def showToast_def)

lemma resume_UpdateK_resolved:
  "resume (UpdateK original k text) now None a =
     Normal (a\<lparr>toast := Some \<lparr>toast_message = ''Todo updated'', toast_type = ''success''\<rparr>\<rparr>)"
  by (simp add: resume_def handleUpdateTodo_resume_def handleUpdateTodo_try_def settle_def
      todoApi_updateTodo_def try_catch_def showToast_def)

lemma resume_UpdateK_rejected:
  "resume (UpdateK original k text) now (Some m) a =
     Normal (a\<lparr>todoStore := written original (todoStore a),
              toast := Some \<lparr>toast_message = ''Failed to update todo'', toast_type = ''error''\<rparr>\<rparr>)"
  by (simp add: resume_def handleUpdateTodo_resume_def handleUpdateTodo_try_def settle_def
      try_catch_def handleUpdateTodo_catch_def store_call_updateTodos and_then_def showToast_def)

lemmas step_call = step_AddTodo step_ToggleTodo step_DeleteTodo step_UpdateTodo step_ClearAll

lemmas resume_simps =
  resume_AddK_resolved resume_AddK_rejected resume_ToggleK_resolved resume_ToggleK_rejected
  resume_DeleteK_resolved resume_DeleteK_rejected resume_UpdateK_resolved resume_UpdateK_rejected

declare step.simps(1-5) [simp del]

lemma remove_last [simp]: "take (length xs) (xs @ [x]) @ drop (Suc (length xs)) (xs @ [x]) = xs"
  by simp

section \<open>Claims about the mutations\<close>

text \<open>
  C1: in any state of the page, with the authoritative list \<open>L\<close>, a toggle of \<open>k\<close> writes
  the list with \<open>completed\<close> flipped at \<open>k\<close> at once; when its remote call then fails (with
  whatever message \<open>m\<close>), the authoritative list is deep-equal to \<open>L\<close> again, and the
  notification \<open>Failed to toggle todo\<close> of type \<open>error\<close> is shown. The same holds
  whenever the failure arrives: in whatever later state \<open>a'\<close> the suspended toggle is when
  its remote call fails, the list after the failure is deep-equal to \<open>L\<close>.
\<close>

theorem C1_failed_toggle_restores_list:
  "elems (getSnapshot (todoStore (step (ToggleTodo k) a)))
     = map (toggle_item k) (elems (getSnapshot (todoStore a)))
   \<and> elems (getSnapshot (todoStore
        (run [ToggleTodo k, Settle (length (pending a)) now (Some m)] a)))
     = elems (getSnapshot (todoStore a))
   \<and> toast (run [ToggleTodo k, Settle (length (pending a)) now (Some m)] a)
     = Some \<lparr>toast_message = ''Failed to toggle todo'', toast_type = ''error''\<rparr>
   \<and> pending (run [ToggleTodo k, Settle (length (pending a)) now (Some m)] a) = pending a
   \<and> uncaught (run [ToggleTodo k, Settle (length (pending a)) now (Some m)] a) = uncaught a
   \<and> (\<forall>a' i. i < length (pending a')
               \<and> pending a' ! i = last (pending (step (ToggleTodo k) a))
         \<longrightarrow> elems (getSnapshot (todoStore (step (Settle i now (Some m)) a')))
               = elems (getSnapshot (todoStore a))
             \<and> toast (step (Settle i now (Some m)) a')
               = Some \<lparr>toast_message = ''Failed to toggle todo'', toast_type = ''error''\<rparr>)"
  by (simp add: run_def step_call resume_simps report_def getSnapshot_def)

text \<open>
  The scenario of the specification: the list \<open>[{id: "1", text: "a", completed: false}]\<close>,
  and \<open>toggle("1")\<close> fails. And a rapid double toggle: the first toggle fails after the
  second was called, and the list is the original one again.
\<close>

theorem C1_failed_toggle_restores_list_witness:
  "elems (getSnapshot (todoStore (step (ToggleTodo ''1'') app1)))
     = [\<lparr>todo_id = ''1'', todo_text = ''a'', completed = True, createdAt = None\<rparr>]
   \<and> elems (getSnapshot (todoStore (run [ToggleTodo ''1'', Settle 0 800 (Some ''offline'')] app1)))
     = [\<lparr>todo_id = ''1'', todo_text = ''a'', completed = False, createdAt = None\<rparr>]
   \<and> toast (run [ToggleTodo ''1'', Settle 0 800 (Some ''offline'')] app1)
     = Some \<lparr>toast_message = ''Failed to toggle todo'', toast_type = ''error''\<rparr>
   \<and> 0 < length (pending (run [ToggleTodo ''1'', ToggleTodo ''1''] app1))
   \<and> pending (run [ToggleTodo ''1'', ToggleTodo ''1''] app1) ! 0
       = last (pending (step (ToggleTodo ''1'') app1))
   \<and> elems (getSnapshot (todoStore
        (run [ToggleTodo ''1'', ToggleTodo ''1'', Settle 0 800 (Some ''offline'')] app1)))
     = [\<lparr>todo_id = ''1'', todo_text = ''a'', completed = False, createdAt = None\<rparr>]"
proof -
  note t = C1_failed_toggle_restores_list[of "''1''" app1 800 "''offline''"]
  have p: "length (pending app1) = 0"
    by (simp add: app1_def)
  have l: "elems (getSnapshot (todoStore app1))
           = [\<lparr>todo_id = ''1'', todo_text = ''a'', completed = False, createdAt = None\<rparr>]"
    by (simp add: app1_def store1_def getSnapshot_def item1_def)
  have h: "0 < length (pending (run [ToggleTodo ''1'', ToggleTodo ''1''] app1))"
      "pending (run [ToggleTodo ''1'', ToggleTodo ''1''] app1) ! 0
       = last (pending (step (ToggleTodo ''1'') app1))"
    by (simp_all add: run_def step_call app1_def)
  have r: "run [ToggleTodo ''1'', ToggleTodo ''1'', Settle 0 800 (Some ''offline'')] app1
           = step (Settle 0 800 (Some ''offline'')) (run [ToggleTodo ''1'', ToggleTodo ''1''] app1)"
    by (simp add: run_def)
  have "elems (getSnapshot (todoStore
          (run [ToggleTodo ''1'', ToggleTodo ''1'', Settle 0 800 (Some ''offline'')] app1)))
        = elems (getSnapshot (todoStore app1))"
    unfolding r using t h by blast
  moreover have "elems (getSnapshot (todoStore (step (ToggleTodo ''1'') app1)))
     = [\<lparr>todo_id = ''1'', todo_text = ''a'', completed = True, createdAt = None\<rparr>]"
    using t by (simp add: l toggle_item_def)
  moreover have "elems (getSnapshot (todoStore
          (run [ToggleTodo ''1'', Settle 0 800 (Some ''offline'')] app1)))
        = elems (getSnapshot (todoStore app1))"
      "toast (run [ToggleTodo ''1'', Settle 0 800 (Some ''offline'')] app1)
        = Some \<lparr>toast_message = ''Failed to toggle todo'', toast_type = ''error''\<rparr>"
    using t unfolding p by blast+
  ultimately show ?thesis
    using h l by simp
qed

text \<open>
  C2, as stated, fails for three of the four mutations: the \<open>catch\<close> blocks of
  \<open>handleToggleTodo\<close>, \<open>handleDeleteTodo\<close> and \<open>handleUpdateTodo\<close> show a fixed text.
  A toggle whose remote call fails with the message \<open>offline\<close> shows \<open>Failed to toggle
  todo\<close>.
\<close>

theorem C2_toggle_message_counterexample:
  "toast (run [ToggleTodo ''1'', Settle 0 800 (Some ''offline'')] app1)
     = Some \<lparr>toast_message = ''Failed to toggle todo'', toast_type = ''error''\<rparr>
   \<and> map_option toast_message (toast (run [ToggleTodo ''1'', Settle 0 800 (Some ''offline'')] app1))
     \<noteq> Some (message (Exn ''Error'' ''offline''))"
  by (simp add: run_def step_call resume_simps report_def app1_def)

text \<open>
  C2, amended: the notification of a failed add carries the message of the error
  verbatim; the notification of a failed toggle, delete or update is of type \<open>error\<close>
  too, with the fixed text \<open>Failed to toggle todo\<close>, \<open>Failed to delete todo\<close> or \<open>Failed to
  update todo\<close>, whatever the message of the error.
\<close>

theorem C2_failure_notifications:
  "toast (run [AddTodo t text, Settle (length (pending a)) now (Some m)] a)
     = Some \<lparr>toast_message = message (Exn ''Error'' m), toast_type = ''error''\<rparr>
   \<and> message (Exn ''Error'' m) = m
   \<and> toast (run [ToggleTodo k, Settle (length (pending a)) now (Some m)] a)
     = Some \<lparr>toast_message = ''Failed to toggle todo'', toast_type = ''error''\<rparr>
   \<and> toast (run [DeleteTodo k, Settle (length (pending a)) now (Some m)] a)
     = Some \<lparr>toast_message = ''Failed to delete todo'', toast_type = ''error''\<rparr>
   \<and> toast (run [UpdateTodo k text, Settle (length (pending a)) now (Some m)] a)
     = Some \<lparr>toast_message = ''Failed to update todo'', toast_type = ''error''\<rparr>"
  by (simp add: run_def step_call resume_simps report_def)

text \<open>The theorem at work: an add, a delete and an update of \<open>app1\<close> fail.\<close>

theorem C2_failure_notifications_witness:
  "toast (run [AddTodo 5 ''b'', Settle 0 1505 (Some ''offline'')] app1)
     = Some \<lparr>toast_message = ''offline'', toast_type = ''error''\<rparr>
   \<and> toast (run [DeleteTodo ''1'', Settle 0 1000 (Some ''offline'')] app1)
     = Some \<lparr>toast_message = ''Failed to delete todo'', toast_type = ''error''\<rparr>
   \<and> toast (run [UpdateTodo ''1'' ''b'', Settle 0 1000 (Some ''offline'')] app1)
     = Some \<lparr>toast_message = ''Failed to update todo'', toast_type = ''error''\<rparr>"
  using C2_failure_notifications[of 5 "''b''" app1 1505 "''offline''" "''1''"]
    C2_failure_notifications[of 5 "''b''" app1 1000 "''offline''" "''1''"]
  by (simp add: app1_def)

section \<open>Claims about the form and the remote service\<close>

lemma trim_blank: "list_all is_white_space s \<Longrightarrow> trim s = []"
proof -
  assume "list_all is_white_space s"
  then have d: "dropWhile is_white_space s = []"
    by (induction s) auto
  show ?thesis
    unfolding trim_def d by simp
qed

lemma handleSubmit_nonblank:
  "trim (form_input f) \<noteq> [] \<Longrightarrow>
     handleSubmit (handleAddTodo now) f a =
       (f\<lparr>form_input := [], form_error := None\<rparr>, step (AddTodo now (trim (form_input f))) a)"
  by (simp add: handleSubmit_def Let_def handleAddTodo_def step.simps(1) report_def)

text \<open>
  C9: when every character of the input is white space (the empty input included),
  \<open>handleSubmit\<close> sets the validation message and returns without calling \<open>onSubmit\<close>: the
  state of the callback's owner is returned as it was, whatever the callback. With the
  callback of the page, \<open>handleAddTodo\<close>: the store is as it was, and no remote call has
  been issued.
\<close>

theorem C9_blank_input_is_rejected:
  assumes "list_all is_white_space (form_input f)"
  shows "handleSubmit onSubmit f w = (f\<lparr>form_error := Some ''Please enter a todo''\<rparr>, w)
         \<and> todoStore (snd (handleSubmit (handleAddTodo now) f a)) = todoStore a
         \<and> pending (snd (handleSubmit (handleAddTodo now) f a)) = pending a"
  using assms by (simp add: handleSubmit_def trim_blank)

text \<open>The theorem at work, on an input of a space and a tab.\<close>

theorem C9_blank_input_is_rejected_witness:
  "list_all is_white_space (form_input \<lparr>form_input = [CHR 0x20, CHR 0x09], form_error = None\<rparr>)
   \<and> handleSubmit (handleAddTodo 5) \<lparr>form_input = [CHR 0x20, CHR 0x09], form_error = None\<rparr> app1
       = (\<lparr>form_input = [CHR 0x20, CHR 0x09], form_error = Some ''Please enter a todo''\<rparr>, app1)"
proof -
  have b: "list_all is_white_space
             (form_input \<lparr>form_input = [CHR 0x20, CHR 0x09], form_error = None\<rparr>)"
    by (simp add: is_white_space_def)
  show ?thesis
    using C9_blank_input_is_rejected[OF b, of "handleAddTodo 5" app1 5 app1] b by simp
qed

text \<open>
  C10: each operation of the simulated service settles after its fixed delay (1500, 800,
  1000 and 1000 ms) and, left to itself (no fault simulated), resolves for every input.
  So the \<open>try\<close> block of each handler completes normally for every input, and the
  continuation of the handler is what its \<open>try\<close> block does: the \<open>catch\<close> block is not
  entered.
\<close>

theorem C10_service_always_resolves:
  "fst (todoApi_addTodo text) = 1500 \<and> fst (todoApi_toggleTodo k) = 800
   \<and> fst (todoApi_deleteTodo k) = 1000 \<and> fst (todoApi_updateTodo k text) = 1000
   \<and> settle (todoApi_addTodo text) now None
       = Resolved \<lparr>todo_id = show_nat now, todo_text = text, completed = False,
                    createdAt = Some (toISOString now)\<rparr>
   \<and> settle (todoApi_toggleTodo k) now None = Resolved k
   \<and> settle (todoApi_deleteTodo k) now None = Resolved k
   \<and> settle (todoApi_updateTodo k text) now None = Resolved (k, text)
   \<and> (\<exists>a'. handleAddTodo_try st (settle (todoApi_addTodo text) now None) a = Normal a'
            \<and> resume (AddK st tmp text) now None a = Normal a')
   \<and> (\<exists>a'. handleToggleTodo_try (settle (todoApi_toggleTodo k) now None) a = Normal a'
            \<and> resume (ToggleK original k) now None a = Normal a')
   \<and> (\<exists>a'. handleDeleteTodo_try (settle (todoApi_deleteTodo k) now None) a = Normal a'
            \<and> resume (DeleteK original k) now None a = Normal a')
   \<and> (\<exists>a'. handleUpdateTodo_try (settle (todoApi_updateTodo k text) now None) a = Normal a'
            \<and> resume (UpdateK original k text) now None a = Normal a')"
  by (simp add: settle_def todoApi_addTodo_def todoApi_toggleTodo_def todoApi_deleteTodo_def
      todoApi_updateTodo_def handleAddTodo_try_def handleToggleTodo_try_def
      handleDeleteTodo_try_def handleUpdateTodo_try_def resume_def handleAddTodo_resume_def
      handleToggleTodo_resume_def handleDeleteTodo_resume_def handleUpdateTodo_resume_def
      try_catch_def new_array_def store_call_updateTodos and_then_def)

text \<open>
  The theorem at work: the continuation of a toggle of the item of \<open>app1\<close>, left to the
  service, changes nothing.
\<close>

theorem C10_service_always_resolves_witness:
  "fst (todoApi_toggleTodo ''1'') = 800
   \<and> settle (todoApi_toggleTodo ''1'') 800 None = Resolved ''1''
   \<and> handleToggleTodo_try (Resolved ''1'') app1 = Normal app1
   \<and> resume (ToggleK \<lparr>addr = 1, elems = [item1]\<rparr> ''1'') 800 None app1 = Normal app1"
  using C10_service_always_resolves[of "''b''" "''1''" 800 "\<lparr>addr = 0, elems = [item1]\<rparr>"
      app1 "tempTodo 5 ''b''" "\<lparr>addr = 1, elems = [item1]\<rparr>"]
  by (auto simp: handleToggleTodo_try_def)

section \<open>Speculative items never reach the store\<close>

lemma show_nat_digit: "show_nat n \<noteq> [] \<and> hd (show_nat n) \<in> set ''0123456789''"
proof (induction n rule: show_nat.induct)
  case (1 n)
  show ?case
  proof (cases "n < 10")
    case True
    then have "''0123456789'' ! n \<in> set ''0123456789''"
      by (intro nth_mem) simp
    then show ?thesis
      using True by (subst (1 2) show_nat.simps) (simp add: digit_char_def)
  next
    case False
    then show ?thesis
      using 1 by (subst (1 2) show_nat.simps) simp
  qed
qed

lemma show_nat_not_speculative: "\<not> prefix ''temp-'' (show_nat n)"
proof
  assume p: "prefix ''temp-'' (show_nat n)"
  obtain d ds where d: "show_nat n = d # ds"
    using show_nat_digit[of n] by (cases "show_nat n") auto
  then have "hd (show_nat n) = CHR ''t''"
    using p by simp
  then show False
    using show_nat_digit[of n] by auto
qed

lemma tempTodo_speculative: "is_speculative (tempTodo now text)"
  by (simp add: is_speculative_def tempTodo_def)

lemma no_speculative_simps [simp]:
  "no_speculative []"
  "no_speculative (xs @ ys) \<longleftrightarrow> no_speculative xs \<and> no_speculative ys"
  "no_speculative (x # xs) \<longleftrightarrow> \<not> is_speculative x \<and> no_speculative xs"
  by (auto simp: no_speculative_def)

lemma no_speculative_toggle: "no_speculative xs \<Longrightarrow> no_speculative (map (toggle_item k) xs)"
  by (induction xs) (auto simp: toggle_item_def is_speculative_def)

lemma no_speculative_retext: "no_speculative xs \<Longrightarrow> no_speculative (map (retext_item k s) xs)"
  by (induction xs) (auto simp: retext_item_def is_speculative_def)

lemma no_speculative_filter: "no_speculative xs \<Longrightarrow> no_speculative (filter P xs)"
  by (induction xs) auto

lemma storage_clean_written:
  assumes "no_speculative (elems x)" and "storage_clean (storage s)"
  shows "storage_clean (storage (written x s))"
  using assms
  by (auto simp: written_def localStorage_setItem_def storage_clean_def JSON_roundtrip
      split: if_splits)

lemma clean_state_resume:
  assumes "clean_state a" and "no_speculative (captured k)"
  shows "clean_state (report (resume k now fault a))"
proof (cases fault)
  case None
  then show ?thesis
    using assms
    by (cases k)
       (auto simp: clean_state_def resume_simps report_def storage_clean_written
          is_speculative_def show_nat_not_speculative)
next
  case (Some m)
  then show ?thesis
    using assms
    by (cases k) (auto simp: clean_state_def resume_simps report_def storage_clean_written)
qed

lemma clean_state_step:
  assumes c: "clean_state a"
  shows "clean_state (step ev a)"
proof (cases ev)
  case (Settle i now fault)
  show ?thesis
  proof (cases "i < length (pending a)")
    case True
    have k: "no_speculative (captured (pending a ! i))"
      using c True by (simp add: clean_state_def list_all_length)
    have "list_all (\<lambda>k. no_speculative (captured k)) (take i (pending a) @ drop (Suc i) (pending a))"
      using c by (auto simp: clean_state_def list_all_iff dest: in_set_takeD in_set_dropD)
    then have "clean_state (a\<lparr>pending := take i (pending a) @ drop (Suc i) (pending a)\<rparr>)"
      using c by (simp add: clean_state_def)
    then show ?thesis
      using clean_state_resume[OF _ k] True Settle by simp
  next
    case False
    then show ?thesis
      using c Settle by simp
  qed
next
  case (AddTodo now tx)
  then show ?thesis
    using c by (simp add: clean_state_def step_call)
next
  case (ToggleTodo k)
  then show ?thesis
    using c by (simp add: clean_state_def step_call storage_clean_written no_speculative_toggle)
next
  case (DeleteTodo k)
  then show ?thesis
    using c by (simp add: clean_state_def step_call storage_clean_written no_speculative_filter)
next
  case (UpdateTodo k s)
  then show ?thesis
    using c by (simp add: clean_state_def step_call storage_clean_written no_speculative_retext)
next
  case (ClearAll confirmed)
  then show ?thesis
    using c by (simp add: clean_state_def step_call storage_clean_written)
qed

lemma clean_state_mount:
  assumes "storage_clean ls" and "mount ls = Inr (Typed a)"
  shows "clean_state a"
proof -
  have "no_speculative xs" if "load_todos ls = Inr (Typed xs)" for xs
    using assms(1) that
    by (auto simp: load_todos_def localStorage_getItem_def storage_clean_def
        no_speculative_def split: sum.splits option.splits if_splits)
  then show ?thesis
    using assms
    by (auto simp: mount_def createTodoStore_Inr subscribe_def clean_state_def
        no_speculative_def split: sum.splits modelled.splits)
qed

lemma reachable_clean: "reachable a \<Longrightarrow> clean_state a"
proof (induction rule: reachable.induct)
  case (start ls a)
  then show ?case by (rule clean_state_mount)
next
  case (event a ev)
  then show ?case by (simp add: clean_state_step)
next
  case (reload a a')
  then show ?case
    using clean_state_mount[of "storage (todoStore a)" a'] by (simp add: clean_state_def)
qed

lemma reachable_run: "reachable a \<Longrightarrow> reachable (run evs a)"
  unfolding run_def
  by (induction evs arbitrary: a) (simp_all add: reachable.event)

lemma mount_storage1: "mount storage1 = Inr (Typed app1)"
  by (simp add: mount_def createTodoStore_Inr load_todos_def localStorage_getItem_def
      storage1_def app1_def store1_def subscribe_def Set_add_def JSON_roundtrip
      JSON_stringify_nonempty)

lemma reachable_app1: "reachable app1"
proof (rule reachable.start)
  show "storage_clean storage1"
    by (simp add: storage_clean_def storage1_def JSON_roundtrip item1_def is_speculative_def)
  show "mount storage1 = Inr (Typed app1)"
    by (rule mount_storage1)
qed

text \<open>
  C3: in every state of every execution (the page loaded on a durable storage that holds
  no speculative item, the empty storage of a first visit included, then any events and
  reloads), and so after every further sequence of events, no item of the store's list
  has a speculative id, and the list the durable storage holds has none either. The speculative item of an add has a speculative id: it is in
  the rendered list while the add is in flight, and never in the store. An add whose
  remote call fails leaves the store's array (the same reference) and the durable
  storage as they were.
\<close>

theorem C3_speculative_items_stay_out:
  assumes "reachable a"
  shows "(\<forall>evs. no_speculative (elems (getSnapshot (todoStore (run evs a))))
               \<and> storage_clean (storage (todoStore (run evs a)))
               \<and> tempTodo now text \<notin> set (elems (getSnapshot (todoStore (run evs a)))))
         \<and> is_speculative (tempTodo now text)
         \<and> tempTodo now text \<in> set (optimisticTodos (step (AddTodo now text) a))
         \<and> getSnapshot (todoStore
              (run [AddTodo now text, Settle (length (pending a)) now' (Some m)] a))
            = getSnapshot (todoStore a)
         \<and> storage (todoStore
              (run [AddTodo now text, Settle (length (pending a)) now' (Some m)] a))
            = storage (todoStore a)"
proof -
  have inv: "no_speculative (elems (getSnapshot (todoStore (run evs a))))
             \<and> storage_clean (storage (todoStore (run evs a)))
             \<and> tempTodo now text \<notin> set (elems (getSnapshot (todoStore (run evs a))))" for evs
  proof -
    have c: "clean_state (run evs a)"
      using assms by (intro reachable_clean reachable_run)
    then have "no_speculative (elems (getSnapshot (todoStore (run evs a))))"
      by (simp add: clean_state_def getSnapshot_def)
    moreover from this have "tempTodo now text \<notin> set (elems (getSnapshot (todoStore (run evs a))))"
      using tempTodo_speculative by (auto simp: no_speculative_def list_all_iff)
    ultimately show ?thesis
      using c by (simp add: clean_state_def)
  qed
  have overlay_last: "overlay (ks @ [AddK st tmp tx]) = overlay ks @ [tmp]" for ks st tmp tx
    by (induction ks rule: overlay.induct) simp_all
  have shown: "tempTodo now text \<in> set (optimisticTodos (step (AddTodo now text) a))"
    by (simp add: step_call optimisticTodos_def overlay_last)
  have failed:
    "getSnapshot (todoStore (run [AddTodo now text, Settle (length (pending a)) now' (Some m)] a))
       = getSnapshot (todoStore a)"
    "storage (todoStore (run [AddTodo now text, Settle (length (pending a)) now' (Some m)] a))
       = storage (todoStore a)"
    by (simp_all add: run_def step_call resume_simps report_def)
  show ?thesis
    using inv shown failed tempTodo_speculative by blast
qed

text \<open>
  The theorem at work, from the page loaded on a storage that holds \<open>[item1]\<close>: an add
  that succeeds puts the confirmed item, with the id \<open>1505\<close>, into the store; an add
  that fails leaves the array at address 0.
\<close>

theorem C3_speculative_items_stay_out_witness:
  "reachable app1
   \<and> elems (getSnapshot (todoStore (run [AddTodo 5 ''b'', Settle 0 1505 None] app1)))
       = [item1, \<lparr>todo_id = ''1505'', todo_text = ''b'', completed = False,
                  createdAt = Some (toISOString 1505)\<rparr>]
   \<and> no_speculative (elems (getSnapshot (todoStore (run [AddTodo 5 ''b'', Settle 0 1505 None] app1))))
   \<and> optimisticTodos (step (AddTodo 5 ''b'') app1) = [item1, tempTodo 5 ''b'']
   \<and> getSnapshot (todoStore (run [AddTodo 5 ''b'', Settle 0 1505 (Some ''offline'')] app1))
       = \<lparr>addr = 0, elems = [item1]\<rparr>"
proof -
  have e: "elems (getSnapshot (todoStore (run [AddTodo 5 ''b'', Settle 0 1505 None] app1)))
       = [item1, \<lparr>todo_id = ''1505'', todo_text = ''b'', completed = False,
                  createdAt = Some (toISOString 1505)\<rparr>]"
    by (simp add: run_def step_call resume_simps report_def app1_def store1_def getSnapshot_def
        show_nat.simps digit_char_def)
  have o: "optimisticTodos (step (AddTodo 5 ''b'') app1) = [item1, tempTodo 5 ''b'']"
    by (simp add: step_call optimisticTodos_def useSyncExternalStore_def getSnapshot_def
        app1_def store1_def)
  note t = C3_speculative_items_stay_out[OF reachable_app1, of 5 "''b''" 1505 "''offline''"]
  have p: "length (pending app1) = 0"
    by (simp add: app1_def)
  have n: "no_speculative
             (elems (getSnapshot (todoStore (run [AddTodo 5 ''b'', Settle 0 1505 None] app1))))"
    using t by blast
  have "getSnapshot (todoStore (run [AddTodo 5 ''b'', Settle 0 1505 (Some ''offline'')] app1))
          = getSnapshot (todoStore app1)"
    using t unfolding p by blast
  then have f: "getSnapshot (todoStore (run [AddTodo 5 ''b'', Settle 0 1505 (Some ''offline'')] app1))
          = \<lparr>addr = 0, elems = [item1]\<rparr>"
    by (simp add: app1_def store1_def getSnapshot_def)
  show ?thesis
    using reachable_app1 e n o f by blast
qed

section \<open>Sequences of successful mutations\<close>

lemma apply_mutations_append:
  "apply_mutations (ms @ ms') xs = apply_mutations ms' (apply_mutations ms xs)"
  by (simp add: apply_mutations_def)

lemma apply_mutations_simps [simp]:
  "apply_mutations [] xs = xs"
  "apply_mutations (m # ms) xs = apply_mutations ms (apply_mutation m xs)"
  by (simp_all add: apply_mutations_def)

lemma toggle_item_pure:
  "map (toggle_item k) xs = map (\<lambda>t. if todo_id t = k then t\<lparr>completed := \<not> completed t\<rparr> else t) xs"
  by (simp add: toggle_item_def)

lemma retext_item_pure:
  "map (retext_item k s) xs = map (\<lambda>t. if todo_id t = k then t\<lparr>todo_text := s\<rparr> else t) xs"
  by (simp add: retext_item_def)

lemma without_nth:
  assumes "i < length p"
  shows "length (filter P (take i p @ drop (Suc i) p)) \<le> length (filter P p)"
    and "list_all Q p \<Longrightarrow> list_all Q (take i p @ drop (Suc i) p)"
    and "P (p ! i) \<Longrightarrow> length (filter P p) \<le> 1 \<Longrightarrow> filter P (take i p @ drop (Suc i) p) = []"
proof -
  have p: "p = take i p @ p ! i # drop (Suc i) p"
    using assms by (rule id_take_nth_drop)
  have f: "filter P p = filter P (take i p) @ filter P [p ! i] @ filter P (drop (Suc i) p)"
    by (subst p) simp
  have "length (filter P p)
        = length (filter P (take i p)) + length (filter P [p ! i])
          + length (filter P (drop (Suc i) p))"
    using arg_cong[OF f, of length] by simp
  then show "length (filter P (take i p @ drop (Suc i) p)) \<le> length (filter P p)"
    by simp
  show "list_all Q p \<Longrightarrow> list_all Q (take i p @ drop (Suc i) p)"
    by (auto simp: list_all_iff dest: in_set_takeD in_set_dropD)
  show "P (p ! i) \<Longrightarrow> length (filter P p) \<le> 1 \<Longrightarrow> filter P (take i p @ drop (Suc i) p) = []"
    by (subst (asm) f) auto
qed

lemma no_adds:
  "\<not> list_ex is_add p \<Longrightarrow> filter is_add p = []"
  "filter is_add p = [] \<Longrightarrow> list_all (\<lambda>k. is_add k \<longrightarrow> Q k) p"
  by (auto simp: list_ex_iff list_all_iff filter_empty_conv)

lemma adds_current_call:
  assumes "\<not> list_ex is_add (pending a)" and "\<not> is_add k"
  shows "adds_current (a\<lparr>next_addr := n, todoStore := s, pending := pending a @ [k]\<rparr>)"
  using assms no_adds[of "pending a"] by (simp add: adds_current_def)

lemma step_allowed:
  assumes c: "adds_current a" and ok: "allowed ev a"
  shows "adds_current (step ev a)
         \<and> elems (todos (todoStore (step ev a)))
             = apply_mutations (mutation_of ev a) (elems (todos (todoStore a)))"
proof (cases ev)
  case (AddTodo now tx)
  then have "filter is_add (pending a) = []"
    using ok no_adds(1) by (simp add: allowed_def)
  then show ?thesis
    using AddTodo no_adds(2) by (simp add: step_call adds_current_def mutation_of_def)
next
  case (ToggleTodo k)
  then show ?thesis
    using ok adds_current_call[of a "ToggleK orig k" for orig]
    by (simp add: step_call allowed_def mutation_of_def toggle_item_pure)
next
  case (DeleteTodo k)
  then show ?thesis
    using ok adds_current_call[of a "DeleteK orig k" for orig]
    by (simp add: step_call allowed_def mutation_of_def)
next
  case (UpdateTodo k s)
  then show ?thesis
    using ok adds_current_call[of a "UpdateK orig k s" for orig]
    by (simp add: step_call allowed_def mutation_of_def retext_item_pure)
next
  case (ClearAll confirmed)
  then show ?thesis
    using ok by (simp add: allowed_def)
next
  case (Settle i now fault)
  then have i: "i < length (pending a)" and fault: "fault = None"
    using ok by (simp_all add: allowed_def)
  let ?rest = "take i (pending a) @ drop (Suc i) (pending a)"
  have one: "length (filter is_add (pending a)) \<le> 1"
    and cur: "list_all (\<lambda>k. is_add k \<longrightarrow> captured k = elems (todos (todoStore a))) (pending a)"
    using c by (simp_all add: adds_current_def)
  have rest: "length (filter is_add ?rest) \<le> 1"
    "list_all (\<lambda>k. is_add k \<longrightarrow> captured k = elems (todos (todoStore a))) ?rest"
    using without_nth(1)[OF i, of is_add] one without_nth(2)[OF i cur] by simp_all
  show ?thesis
  proof (cases "pending a ! i")
    case (AddK st tmp tx)
    have "is_add (pending a ! i) \<longrightarrow> captured (pending a ! i) = elems (todos (todoStore a))"
      using cur i by (simp add: list_all_length)
    then have st: "elems st = elems (todos (todoStore a))"
      by (simp add: AddK)
    have "filter is_add ?rest = []"
      using without_nth(3)[OF i, of is_add] one by (simp add: AddK)
    then have "adds_current (step ev a)"
      using no_adds(2) by (simp add: Settle i fault AddK resume_simps report_def adds_current_def)
    then show ?thesis
      by (simp add: Settle i fault AddK resume_simps report_def mutation_of_def settle_def
          todoApi_addTodo_def st)
  next
    case (ToggleK original k)
    then show ?thesis
      using rest
      by (simp add: Settle i fault resume_simps report_def mutation_of_def adds_current_def)
  next
    case (DeleteK original k)
    then show ?thesis
      using rest
      by (simp add: Settle i fault resume_simps report_def mutation_of_def adds_current_def)
  next
    case (UpdateK original k s)
    then show ?thesis
      using rest
      by (simp add: Settle i fault resume_simps report_def mutation_of_def adds_current_def)
  qed
qed

lemma only_the_add_completes:
  assumes "list_ex is_add (pending a)" and "allowed ev a"
  shows "mutation_of ev a = [] \<or> (\<exists>t. mutation_of ev a = [MAdd t])"
  using assms
  by (cases ev)
     (auto simp: allowed_def mutation_of_def settle_def todoApi_addTodo_def
        split: continuation.splits)

lemma run_allowed:
  assumes "adds_current a" and "no_call_during_add evs a"
  shows "elems (todos (todoStore (run evs a)))
         = apply_mutations (mutations evs a) (elems (todos (todoStore a)))"
  using assms
proof (induction evs arbitrary: a)
  case Nil
  show ?case by (simp add: run_def)
next
  case (Cons ev evs)
  have s: "adds_current (step ev a)"
    "elems (todos (todoStore (step ev a)))
       = apply_mutations (mutation_of ev a) (elems (todos (todoStore a)))"
    using step_allowed[of a ev] Cons.prems by simp_all
  have "elems (todos (todoStore (run evs (step ev a))))
        = apply_mutations (mutations evs (step ev a)) (elems (todos (todoStore (step ev a))))"
    using Cons.IH[OF s(1)] Cons.prems(2) by simp
  then show ?case
    by (simp add: run_def s(2) apply_mutations_append)
qed

text \<open>
  Where the handlers do compose. A toggle, a delete and an update write the transformed
  list of the current snapshot at once, when they are called, whatever is in flight. So
  from a state with no mutation in flight, along every run of mutations whose remote
  calls all succeed and in which no handler is called while an add is in flight, the
  authoritative list is the result of applying the pure list transformations of the
  mutations completed so far, in order, to the initial list. An add is completed when it
  resolves, and while it is in flight no other mutation is completed
  (\<open>only_the_add_completes\<close>), so this order is the call order.
\<close>

lemma mutations_compose_outside_adds:
  assumes "pending a = []" and "no_call_during_add evs a"
  shows "elems (getSnapshot (todoStore (run evs a)))
         = apply_mutations (mutations evs a) (elems (getSnapshot (todoStore a)))"
proof -
  have "adds_current a"
    using assms(1) by (simp add: adds_current_def)
  then show ?thesis
    using run_allowed[OF _ assms(2)] by (simp add: getSnapshot_def)
qed

text \<open>
  From the list \<open>[item1]\<close>: an add of \<open>b\<close> resolves with the id \<open>1505\<close>; then a toggle
  of \<open>1\<close> and a delete of \<open>1505\<close> are called, both in flight at once, and resolve. The
  list ends with \<open>item1\<close> completed.
\<close>

lemma mutations_compose_outside_adds_example:
  "pending app1 = []
   \<and> no_call_during_add
        [AddTodo 5 ''b'', Settle 0 1505 None, ToggleTodo ''1'', DeleteTodo ''1505'',
         Settle 0 2400 None, Settle 0 2700 None] app1
   \<and> mutations
        [AddTodo 5 ''b'', Settle 0 1505 None, ToggleTodo ''1'', DeleteTodo ''1505'',
         Settle 0 2400 None, Settle 0 2700 None] app1
      = [MAdd \<lparr>todo_id = ''1505'', todo_text = ''b'', completed = False,
               createdAt = Some (toISOString 1505)\<rparr>,
         MToggle ''1'', MDelete ''1505'']
   \<and> elems (getSnapshot (todoStore (run
        [AddTodo 5 ''b'', Settle 0 1505 None, ToggleTodo ''1'', DeleteTodo ''1505'',
         Settle 0 2400 None, Settle 0 2700 None] app1)))
      = [\<lparr>todo_id = ''1'', todo_text = ''a'', completed = True, createdAt = None\<rparr>]"
proof -
  let ?evs = "[AddTodo 5 ''b'', Settle 0 1505 None, ToggleTodo ''1'', DeleteTodo ''1505'',
         Settle 0 2400 None, Settle 0 2700 None]"
  have p: "pending app1 = []"
    by (simp add: app1_def)
  have n: "no_call_during_add ?evs app1"
    by (simp add: allowed_def step_call resume_simps report_def app1_def)
  have m: "mutations ?evs app1
      = [MAdd \<lparr>todo_id = ''1505'', todo_text = ''b'', completed = False,
               createdAt = Some (toISOString 1505)\<rparr>,
         MToggle ''1'', MDelete ''1505'']"
    by (simp add: mutation_of_def step_call resume_simps report_def app1_def settle_def
        todoApi_addTodo_def show_nat.simps digit_char_def)
  have "elems (getSnapshot (todoStore (run ?evs app1)))
        = apply_mutations (mutations ?evs app1) (elems (getSnapshot (todoStore app1)))"
    using mutations_compose_outside_adds[OF p n] .
  then have "elems (getSnapshot (todoStore (run ?evs app1)))
        = [\<lparr>todo_id = ''1'', todo_text = ''a'', completed = True, createdAt = None\<rparr>]"
    unfolding m by (simp add: app1_def store1_def getSnapshot_def item1_def)
  then show ?thesis
    using p n m by blast
qed

text \<open>
  C4 does not hold of the code: when its remote call resolves, \<open>handleAddTodo\<close> writes
  \<open>[...storedTodos, newTodo]\<close> with the list \<open>storedTodos\<close> of the render in which it
  was called (App.jsx, line 83), and so undoes what a mutation called in the meantime
  has written. From the list \<open>[item1]\<close>: an add of \<open>b\<close> is called, then a toggle of \<open>1\<close>;
  the toggle resolves, then the add resolves with the item the service confirms. Both
  remote calls succeed. The store ends with \<open>item1\<close> not completed, while the two list
  transformations, in call order, give it completed.
\<close>

theorem C4_add_discards_concurrent_toggle:
  "settle (todoApi_addTodo ''b'') 1505 None
     = Resolved \<lparr>todo_id = ''1505'', todo_text = ''b'', completed = False,
                  createdAt = Some (toISOString 1505)\<rparr>
   \<and> elems (getSnapshot (todoStore
        (run [AddTodo 5 ''b'', ToggleTodo ''1'', Settle 1 900 None, Settle 0 1505 None] app1)))
     = [\<lparr>todo_id = ''1'', todo_text = ''a'', completed = False, createdAt = None\<rparr>,
        \<lparr>todo_id = ''1505'', todo_text = ''b'', completed = False,
         createdAt = Some (toISOString 1505)\<rparr>]
   \<and> apply_mutations
        [MAdd \<lparr>todo_id = ''1505'', todo_text = ''b'', completed = False,
               createdAt = Some (toISOString 1505)\<rparr>,
         MToggle ''1'']
        (elems (getSnapshot (todoStore app1)))
     = [\<lparr>todo_id = ''1'', todo_text = ''a'', completed = True, createdAt = None\<rparr>,
        \<lparr>todo_id = ''1505'', todo_text = ''b'', completed = False,
         createdAt = Some (toISOString 1505)\<rparr>]
   \<and> elems (getSnapshot (todoStore
        (run [AddTodo 5 ''b'', ToggleTodo ''1'', Settle 1 900 None, Settle 0 1505 None] app1)))
     \<noteq> apply_mutations
        [MAdd \<lparr>todo_id = ''1505'', todo_text = ''b'', completed = False,
               createdAt = Some (toISOString 1505)\<rparr>,
         MToggle ''1'']
        (elems (getSnapshot (todoStore app1)))"
  by (simp add: run_def step_call resume_simps report_def app1_def store1_def getSnapshot_def
      item1_def settle_def todoApi_addTodo_def show_nat.simps digit_char_def)

end
